theory Spec2Isabelle
  imports Complex_Main "HOL-Library.Multiset" "HOL-Library.AList"
begin

section \<open>Floating-point values\<close>

text \<open>
  The engine computes on IEEE doubles held in pandas Series. A value is a finite number,
  one of the two infinities, or not-a-number. Finite arithmetic is exact here (rounding,
  overflow and the sign of zero are not modelled: a zero divisor counts as +0); the
  special values follow IEEE 754, so that a division by zero is a value and not an error.
\<close>

datatype fl = Fin real | PInf | NInf | NaN

fun is_nan :: "fl \<Rightarrow> bool" where
  "is_nan NaN = True"
| "is_nan _ = False"

fun is_finite :: "fl \<Rightarrow> bool" where
  "is_finite (Fin _) = True"
| "is_finite _ = False"

fun fl_neg :: "fl \<Rightarrow> fl" where
  "fl_neg (Fin x) = Fin (- x)"
| "fl_neg PInf = NInf"
| "fl_neg NInf = PInf"
| "fl_neg NaN = NaN"

fun fl_abs :: "fl \<Rightarrow> fl" where
  "fl_abs (Fin x) = Fin \<bar>x\<bar>"
| "fl_abs PInf = PInf"
| "fl_abs NInf = PInf"
| "fl_abs NaN = NaN"

fun fl_add :: "fl \<Rightarrow> fl \<Rightarrow> fl" where
  "fl_add (Fin x) (Fin y) = Fin (x + y)"
| "fl_add NaN _ = NaN"
| "fl_add _ NaN = NaN"
| "fl_add PInf NInf = NaN"
| "fl_add NInf PInf = NaN"
| "fl_add PInf _ = PInf"
| "fl_add _ PInf = PInf"
| "fl_add NInf _ = NInf"
| "fl_add _ NInf = NInf"

definition fl_sub :: "fl \<Rightarrow> fl \<Rightarrow> fl" where
  "fl_sub a b = fl_add a (fl_neg b)"

fun fl_mul :: "fl \<Rightarrow> fl \<Rightarrow> fl" where
  "fl_mul (Fin x) (Fin y) = Fin (x * y)"
| "fl_mul NaN _ = NaN"
| "fl_mul _ NaN = NaN"
| "fl_mul PInf (Fin y) = (if y = 0 then NaN else if 0 < y then PInf else NInf)"
| "fl_mul NInf (Fin y) = (if y = 0 then NaN else if 0 < y then NInf else PInf)"
| "fl_mul (Fin x) PInf = (if x = 0 then NaN else if 0 < x then PInf else NInf)"
| "fl_mul (Fin x) NInf = (if x = 0 then NaN else if 0 < x then NInf else PInf)"
| "fl_mul PInf PInf = PInf"
| "fl_mul NInf NInf = PInf"
| "fl_mul PInf NInf = NInf"
| "fl_mul NInf PInf = NInf"

fun fl_div :: "fl \<Rightarrow> fl \<Rightarrow> fl" where
  "fl_div (Fin x) (Fin y) =
     (if y = 0 then (if x = 0 then NaN else if 0 < x then PInf else NInf)
      else Fin (x / y))"
| "fl_div NaN _ = NaN"
| "fl_div _ NaN = NaN"
| "fl_div (Fin x) PInf = Fin 0"
| "fl_div (Fin x) NInf = Fin 0"
| "fl_div PInf (Fin y) = (if 0 \<le> y then PInf else NInf)"
| "fl_div NInf (Fin y) = (if 0 \<le> y then NInf else PInf)"
| "fl_div PInf PInf = NaN"
| "fl_div PInf NInf = NaN"
| "fl_div NInf PInf = NaN"
| "fl_div NInf NInf = NaN"

text \<open>The IEEE comparisons: every comparison with NaN is false.\<close>

fun fl_less :: "fl \<Rightarrow> fl \<Rightarrow> bool" where
  "fl_less (Fin x) (Fin y) = (x < y)"
| "fl_less NaN _ = False"
| "fl_less _ NaN = False"
| "fl_less NInf NInf = False"
| "fl_less NInf _ = True"
| "fl_less PInf _ = False"
| "fl_less _ PInf = True"
| "fl_less _ NInf = False"

definition fl_eq :: "fl \<Rightarrow> fl \<Rightarrow> bool" where
  "fl_eq a b = (a = b \<and> \<not> is_nan a)"

definition fl_le :: "fl \<Rightarrow> fl \<Rightarrow> bool" where
  "fl_le a b = (fl_less a b \<or> fl_eq a b)"

definition fl_ge :: "fl \<Rightarrow> fl \<Rightarrow> bool" where
  "fl_ge a b = fl_le b a"

definition fl_min :: "fl \<Rightarrow> fl \<Rightarrow> fl" where
  "fl_min a b = (if fl_less b a then b else a)"

definition fl_max :: "fl \<Rightarrow> fl \<Rightarrow> fl" where
  "fl_max a b = (if fl_less a b then b else a)"

section \<open>Series and data frames\<close>

text \<open>
  A Series is the list of its values in row order; the row labels live in the frame.
  Arithmetic between a Series and a scalar broadcasts the scalar; arithmetic between
  two Series of one frame pairs the values row by row. The reductions \<open>min\<close> and
  \<open>max\<close> skip NaN, and are NaN when nothing is left (pandas' \<open>skipna\<close> default).
\<close>

type_synonym series = "fl list"

definition series_sub_scalar :: "series \<Rightarrow> fl \<Rightarrow> series" where
  "series_sub_scalar s c = map (\<lambda>x. fl_sub x c) s"

definition scalar_sub_series :: "fl \<Rightarrow> series \<Rightarrow> series" where
  "scalar_sub_series c s = map (\<lambda>x. fl_sub c x) s"

definition series_div_scalar :: "series \<Rightarrow> fl \<Rightarrow> series" where
  "series_div_scalar s c = map (\<lambda>x. fl_div x c) s"

definition series_mul_scalar :: "series \<Rightarrow> fl \<Rightarrow> series" where
  "series_mul_scalar s c = map (\<lambda>x. fl_mul x c) s"

definition series_abs :: "series \<Rightarrow> series" where
  "series_abs s = map fl_abs s"

definition series_add :: "series \<Rightarrow> series \<Rightarrow> series" where
  "series_add s t = map2 fl_add s t"

definition series_min :: "series \<Rightarrow> fl" where
  "series_min s =
     (case filter (\<lambda>x. \<not> is_nan x) s of [] \<Rightarrow> NaN | x # xs \<Rightarrow> fold fl_min xs x)"

definition series_max :: "series \<Rightarrow> fl" where
  "series_max s =
     (case filter (\<lambda>x. \<not> is_nan x) s of [] \<Rightarrow> NaN | x # xs \<Rightarrow> fold fl_max xs x)"

text \<open>
  The columns of the entity table that the engine reads (in the source they are named
  in Japanese: distribution yield, NAV ratio, market capitalisation, asset size, number
  of buildings, average building age, interest-bearing debt ratio, return on equity),
  and the six score columns that \<open>select_stocks\<close> adds. The text columns of the table
  (code, name, category) take no part in any computation; a row is identified by its
  label in the index.
\<close>

datatype column =
    DistributionYield | NavRatio | MarketCap | AssetSize
  | BuildingCount | AverageBuildingAge | LeverageRatio | Roe
  | DistributionYieldScore | NavRatioScore | PortfolioQualityScore
  | FinancialHealthScore | MarketPositionScore | TotalScore

record frame =
  index :: "nat list"
  cols :: "(column \<times> series) list"

datatype error = KeyError column

text \<open>\<open>df[column]\<close> raises KeyError when the frame has no such column.\<close>

definition getitem :: "frame \<Rightarrow> column \<Rightarrow> error + series" where
  "getitem df c = (case map_of (cols df) c of None \<Rightarrow> Inl (KeyError c) | Some s \<Rightarrow> Inr s)"

text \<open>\<open>df[column] = s\<close> replaces the column where it stands, or appends a new one.\<close>

definition setitem :: "frame \<Rightarrow> column \<Rightarrow> series \<Rightarrow> frame" where
  "setitem df c s = df\<lparr>cols := AList.update c s (cols df)\<rparr>"

definition bind_err :: "error + 'a \<Rightarrow> ('a \<Rightarrow> error + 'b) \<Rightarrow> error + 'b" where
  "bind_err m f = (case m of Inl e \<Rightarrow> Inl e | Inr x \<Rightarrow> f x)"

section \<open>The scoring engine\<close>

record scoring_weights =
  distribution_yield :: fl
  nav_ratio :: fl
  portfolio_quality :: fl
  financial_health :: fl
  market_position :: fl

definition default_weights :: scoring_weights where
  "default_weights =
     \<lparr>distribution_yield = Fin (25 / 100), nav_ratio = Fin (20 / 100),
      portfolio_quality = Fin (15 / 100), financial_health = Fin (20 / 100),
      market_position = Fin (20 / 100)\<rparr>"

definition normalize_column :: "frame \<Rightarrow> column \<Rightarrow> bool \<Rightarrow> error + series" where
  "normalize_column df column ascending =
     bind_err (getitem df column) (\<lambda>s.
       Inr (series_div_scalar (series_sub_scalar s (series_min s))
             (fl_sub (series_max s) (series_min s))))"

definition calculate_distribution_yield_score :: "frame \<Rightarrow> error + series" where
  "calculate_distribution_yield_score df = normalize_column df DistributionYield False"

definition calculate_nav_ratio_score :: "frame \<Rightarrow> error + series" where
  "calculate_nav_ratio_score df =
     bind_err (getitem df NavRatio) (\<lambda>nav_ratio.
       let ideal_ratio = Fin 1 in
       Inr (scalar_sub_series (Fin 1)
             (series_div_scalar (series_abs (series_sub_scalar nav_ratio ideal_ratio))
                (series_max nav_ratio))))"

definition calculate_portfolio_quality_score :: "frame \<Rightarrow> error + series" where
  "calculate_portfolio_quality_score df =
     bind_err (normalize_column df AverageBuildingAge True) (\<lambda>n1.
       let age_score = scalar_sub_series (Fin 1) n1 in
       bind_err (normalize_column df BuildingCount True) (\<lambda>building_score.
         Inr (series_div_scalar (series_add age_score building_score) (Fin 2))))"

definition calculate_financial_health_score :: "frame \<Rightarrow> error + series" where
  "calculate_financial_health_score df =
     bind_err (normalize_column df LeverageRatio True) (\<lambda>n1.
       let ltv_score = scalar_sub_series (Fin 1) n1 in
       bind_err (normalize_column df Roe True) (\<lambda>roe_score.
         Inr (series_div_scalar (series_add ltv_score roe_score) (Fin 2))))"

definition calculate_market_position_score :: "frame \<Rightarrow> error + series" where
  "calculate_market_position_score df =
     bind_err (normalize_column df MarketCap True) (\<lambda>market_cap_score.
       bind_err (normalize_column df AssetSize True) (\<lambda>asset_size_score.
         Inr (series_div_scalar (series_add market_cap_score asset_size_score) (Fin 2))))"

section \<open>Sorting and truncating a frame\<close>

text \<open>
  \<open>sort_values\<close> asks numpy for an argsort of the keys that are not NaN and reorders
  every column by it. The source passes no \<open>kind\<close>, so pandas uses its default,
  numpy's \<open>quicksort\<close>; which routine that is depends on the numpy build (a scalar
  introsort, or a vectorised sort). The argsort is therefore a parameter of the model.
  What numpy promises of every kind is \<open>argsort_spec\<close>: the result is a permutation of
  the positions that lists the keys in ascending order. Only the kinds \<open>stable\<close> and
  \<open>mergesort\<close> promise \<open>argsort_stable_spec\<close> as well. Both are stated for the lists
  of at most \<open>n\<close> keys, which is what a table of \<open>n\<close> rows asks of the sort.
\<close>

type_synonym argsort = "series \<Rightarrow> nat list"

definition argsort_spec :: "nat \<Rightarrow> argsort \<Rightarrow> bool" where
  "argsort_spec n kind =
     (\<forall>ks. length ks \<le> n \<and> (\<forall>k \<in> set ks. \<not> is_nan k) \<longrightarrow>
        mset (kind ks) = mset [0..<length ks] \<and>
        sorted_wrt (\<lambda>i j. fl_le (ks ! i) (ks ! j)) (kind ks))"

definition argsort_stable_spec :: "nat \<Rightarrow> argsort \<Rightarrow> bool" where
  "argsort_stable_spec n kind =
     (\<forall>ks. length ks \<le> n \<and> (\<forall>k \<in> set ks. \<not> is_nan k) \<longrightarrow>
        mset (kind ks) = mset [0..<length ks] \<and>
        sorted_wrt (\<lambda>i j. fl_less (ks ! i) (ks ! j) \<or> (ks ! i = ks ! j \<and> i < j)) (kind ks))"

text \<open>
  pandas' \<open>nargsort\<close>: the NaN keys are set aside and placed last. For a descending
  sort the keys are reversed, sorted ascending, and the result is reversed again.
\<close>

definition nargsort :: "argsort \<Rightarrow> series \<Rightarrow> bool \<Rightarrow> nat list" where
  "nargsort kind items ascending =
     (let idx = [0..<length items];
          non_nans = filter (\<lambda>x. \<not> is_nan x) items;
          non_nan_idx = filter (\<lambda>i. \<not> is_nan (items ! i)) idx;
          nan_idx = filter (\<lambda>i. is_nan (items ! i)) idx;
          non_nans1 = (if \<not> ascending then rev non_nans else non_nans);
          non_nan_idx1 = (if \<not> ascending then rev non_nan_idx else non_nan_idx);
          indexer = map (\<lambda>j. non_nan_idx1 ! j) (kind non_nans1);
          indexer1 = (if \<not> ascending then rev indexer else indexer)
      in indexer1 @ nan_idx)"

definition take_rows :: "frame \<Rightarrow> nat list \<Rightarrow> frame" where
  "take_rows df indexer =
     \<lparr>index = map (\<lambda>i. index df ! i) indexer,
      cols = map (\<lambda>(c, s). (c, map (\<lambda>i. s ! i) indexer)) (cols df)\<rparr>"

definition sort_values :: "argsort \<Rightarrow> frame \<Rightarrow> column \<Rightarrow> bool \<Rightarrow> error + frame" where
  "sort_values kind df by ascending =
     bind_err (getitem df by) (\<lambda>k. Inr (take_rows df (nargsort kind k ascending)))"

text \<open>\<open>df.head(n)\<close> is \<open>df.iloc[:n]\<close>: a negative \<open>n\<close> drops the last \<open>-n\<close> rows.\<close>

definition head :: "frame \<Rightarrow> int \<Rightarrow> frame" where
  "head df n =
     (let m = (if 0 \<le> n then nat n else length (index df) - nat (- n))
      in \<lparr>index = take m (index df), cols = map (\<lambda>(c, s). (c, take m s)) (cols df)\<rparr>)"

subsection \<open>A stable argsort\<close>

text \<open>
  numpy's kinds \<open>stable\<close> and \<open>mergesort\<close>. A stable sort has one possible
  result, so any stable routine stands for them: here each position, taken in increasing
  order, is inserted behind the positions whose key is not greater.
\<close>

fun insert_idx :: "series \<Rightarrow> nat \<Rightarrow> nat list \<Rightarrow> nat list" where
  "insert_idx ks i [] = [i]"
| "insert_idx ks i (j # js) =
     (if fl_less (ks ! i) (ks ! j) then i # j # js else j # insert_idx ks i js)"

fun stable_upto :: "series \<Rightarrow> nat \<Rightarrow> nat list" where
  "stable_upto ks 0 = []"
| "stable_upto ks (Suc n) = insert_idx ks n (stable_upto ks n)"

definition argsort_stable :: argsort where
  "argsort_stable ks = stable_upto ks (length ks)"

subsection \<open>numpy's scalar quicksort\<close>

text \<open>
  numpy's \<open>quicksort\<close> for doubles when no vectorised routine is dispatched: the
  introsort \<open>aquicksort\<close> of \<open>npysort/quicksort.cpp\<close>, with \<open>aheapsort\<close> of
  \<open>npysort/heapsort.cpp\<close> as its fall-back. It is library code, not part of the
  repository, and is written out here after numpy's source. It sorts the array \<open>a\<close>
  of positions in place, comparing the keys \<open>v\<close> they point to: ranges of more than
  17 positions are split around the median of three keys, the others are sorted by
  insertion. \<open>pl\<close>, \<open>pr\<close>, \<open>p_i\<close>, \<open>p_j\<close> are the C pointers \<open>pl\<close>, \<open>pr\<close>,
  \<open>pi\<close>, \<open>pj\<close> as indices into \<open>a\<close>. The two scans rely in C on sentinels left by
  the median step; the bounds \<open>p_i1 < pr\<close> and \<open>pl < p_j1\<close> written into them here
  are the places where those sentinels stop the scans at the latest. The flag
  \<open>popped\<close> tells whether the range comes from the stack: only then is the depth
  limit tested.
\<close>

definition np_less :: "fl \<Rightarrow> fl \<Rightarrow> bool" where
  "np_less a b = (fl_less a b \<or> (is_nan b \<and> \<not> is_nan a))"

definition swap :: "nat \<Rightarrow> nat \<Rightarrow> nat list \<Rightarrow> nat list" where
  "swap i j a = a[i := a ! j, j := a ! i]"

function ins_shift :: "series \<Rightarrow> fl \<Rightarrow> nat \<Rightarrow> nat list \<Rightarrow> nat \<Rightarrow> nat list \<times> nat" where
  "ins_shift v vp pl a p_j =
     (if pl < p_j \<and> np_less vp (v ! (a ! (p_j - 1)))
      then ins_shift v vp pl (a[p_j := a ! (p_j - 1)]) (p_j - 1)
      else (a, p_j))"
  by pat_completeness auto
termination
  by (relation "measure (\<lambda>(v, vp, pl, a, p_j). p_j)") auto

declare ins_shift.simps [simp del]

function ins_loop :: "series \<Rightarrow> nat \<Rightarrow> nat \<Rightarrow> nat list \<Rightarrow> nat \<Rightarrow> nat list" where
  "ins_loop v pl pr a p_i =
     (if p_i \<le> pr
      then (let vi = a ! p_i; (a1, p_j) = ins_shift v (v ! vi) pl a p_i
            in ins_loop v pl pr (a1[p_j := vi]) (p_i + 1))
      else a)"
  by pat_completeness auto
termination
  by (relation "measure (\<lambda>(v, pl, pr, a, p_i). pr + 1 - p_i)") auto

declare ins_loop.simps [simp del]

function scan_up :: "series \<Rightarrow> fl \<Rightarrow> nat list \<Rightarrow> nat \<Rightarrow> nat \<Rightarrow> nat" where
  "scan_up v vp a pr p_i =
     (let p_i1 = p_i + 1
      in if p_i1 < pr \<and> np_less (v ! (a ! p_i1)) vp then scan_up v vp a pr p_i1 else p_i1)"
  by pat_completeness auto
termination
  by (relation "measure (\<lambda>(v, vp, a, pr, p_i). pr - p_i)") auto

declare scan_up.simps [simp del]

function scan_down :: "series \<Rightarrow> fl \<Rightarrow> nat list \<Rightarrow> nat \<Rightarrow> nat \<Rightarrow> nat" where
  "scan_down v vp a pl p_j =
     (let p_j1 = p_j - 1
      in if pl < p_j1 \<and> np_less vp (v ! (a ! p_j1)) then scan_down v vp a pl p_j1 else p_j1)"
  by pat_completeness auto
termination
  by (relation "measure (\<lambda>(v, vp, a, pl, p_j). p_j)") auto

declare scan_down.simps [simp del]

lemma scan_up_gt: "p_i < scan_up v vp a pr p_i"
proof (induction v vp a pr p_i rule: scan_up.induct)
  case (1 v vp a pr p_i)
  show ?case
  proof (cases "p_i + 1 < pr \<and> np_less (v ! (a ! (p_i + 1))) vp")
    case True
    with "1.IH"[OF refl] have "p_i + 1 < scan_up v vp a pr (p_i + 1)" by simp
    with True show ?thesis by (subst scan_up.simps) (simp add: Let_def)
  next
    case False
    then show ?thesis by (subst scan_up.simps) (auto simp: Let_def)
  qed
qed

lemma scan_up_le: "p_i < pr \<Longrightarrow> scan_up v vp a pr p_i \<le> pr"
proof (induction v vp a pr p_i rule: scan_up.induct)
  case (1 v vp a pr p_i)
  show ?case
  proof (cases "p_i + 1 < pr \<and> np_less (v ! (a ! (p_i + 1))) vp")
    case True
    with "1.IH"[OF refl] have "scan_up v vp a pr (p_i + 1) \<le> pr" by simp
    with True show ?thesis by (subst scan_up.simps) (simp add: Let_def)
  next
    case False
    with "1.prems" show ?thesis by (subst scan_up.simps) (auto simp: Let_def)
  qed
qed

lemma scan_down_le: "scan_down v vp a pl p_j \<le> p_j"
proof (induction v vp a pl p_j rule: scan_down.induct)
  case (1 v vp a pl p_j)
  show ?case
  proof (cases "pl < p_j - 1 \<and> np_less vp (v ! (a ! (p_j - 1)))")
    case True
    with "1.IH"[OF refl] have "scan_down v vp a pl (p_j - 1) \<le> p_j - 1" by simp
    with True show ?thesis by (subst scan_down.simps) (simp add: Let_def)
  next
    case False
    then show ?thesis by (subst scan_down.simps) (auto simp: Let_def)
  qed
qed

function part_loop :: "series \<Rightarrow> fl \<Rightarrow> nat \<Rightarrow> nat \<Rightarrow> nat list \<Rightarrow> nat \<Rightarrow> nat \<Rightarrow> nat list \<times> nat" where
  "part_loop v vp pl pr a p_i p_j =
     (let p_i1 = scan_up v vp a pr p_i; p_j1 = scan_down v vp a pl p_j
      in if p_i1 \<ge> p_j1 then (a, p_i1) else part_loop v vp pl pr (swap p_i1 p_j1 a) p_i1 p_j1)"
  by pat_completeness auto
termination
proof (relation "measure (\<lambda>(v, vp, pl, pr, a, p_i, p_j). p_j - p_i)", goal_cases)
  case 1
  show ?case by simp
next
  case (2 v vp pl pr a p_i p_j p_i1 p_j1)
  from scan_up_gt[of p_i v vp a pr] scan_down_le[of v vp a pl p_j] 2
  show ?case by auto
qed

declare part_loop.simps [simp del]

lemma part_loop_bounds:
  "p_i < pr \<Longrightarrow> p_j \<le> pr \<Longrightarrow>
   p_i < snd (part_loop v vp pl pr a p_i p_j) \<and> snd (part_loop v vp pl pr a p_i p_j) \<le> pr"
proof (induction v vp pl pr a p_i p_j rule: part_loop.induct)
  case (1 v vp pl pr a p_i p_j)
  let ?i = "scan_up v vp a pr p_i" and ?j = "scan_down v vp a pl p_j"
  note b = scan_up_gt[of p_i v vp a pr] scan_up_le[OF "1.prems"(1), of v vp a]
    scan_down_le[of v vp a pl p_j]
  show ?case
  proof (cases "?i \<ge> ?j")
    case True
    with b show ?thesis by (subst (1 2) part_loop.simps) (simp add: Let_def)
  next
    case False
    with b "1.prems" have "?i < pr" "?j \<le> pr" by auto
    from "1.IH"[OF refl refl False this] b False
    show ?thesis by (subst (1 2) part_loop.simps) (simp add: Let_def)
  qed
qed

definition partition_range :: "series \<Rightarrow> nat list \<Rightarrow> nat \<Rightarrow> nat \<Rightarrow> nat list \<times> nat" where
  "partition_range v a pl pr =
     (let pm = pl + (pr - pl) div 2;
          a1 = (if np_less (v ! (a ! pm)) (v ! (a ! pl)) then swap pm pl a else a);
          a2 = (if np_less (v ! (a1 ! pr)) (v ! (a1 ! pm)) then swap pr pm a1 else a1);
          a3 = (if np_less (v ! (a2 ! pm)) (v ! (a2 ! pl)) then swap pm pl a2 else a2);
          vp = v ! (a3 ! pm);
          p_j = pr - 1;
          a4 = swap pm p_j a3;
          (a5, p_i) = part_loop v vp pl pr a4 pl p_j
      in (swap p_i (pr - 1) a5, p_i))"

lemma partition_range_bounds:
  "pl < pr \<Longrightarrow> pl < snd (partition_range v a pl pr) \<and> snd (partition_range v a pl pr) \<le> pr"
  using part_loop_bounds[of pl pr "pr - 1"]
  by (simp add: partition_range_def Let_def split_beta)

function heap_sift :: "series \<Rightarrow> nat \<Rightarrow> nat \<Rightarrow> nat \<Rightarrow> nat list \<Rightarrow> nat \<Rightarrow> nat \<Rightarrow> nat list" where
  "heap_sift v tmp pl n a i j =
     (if 0 < j \<and> j \<le> n
      then (let j1 = (if j < n \<and> np_less (v ! (a ! (pl + j - 1))) (v ! (a ! (pl + j))) then j + 1 else j)
            in if np_less (v ! tmp) (v ! (a ! (pl + j1 - 1)))
               then heap_sift v tmp pl n (a[pl + i - 1 := a ! (pl + j1 - 1)]) j1 (j1 + j1)
               else a[pl + i - 1 := tmp])
      else a[pl + i - 1 := tmp])"
  by pat_completeness auto
termination
  by (relation "measure (\<lambda>(v, tmp, pl, n, a, i, j). n + 1 - j)") auto

declare heap_sift.simps [simp del]

fun heap_build :: "series \<Rightarrow> nat \<Rightarrow> nat \<Rightarrow> nat list \<Rightarrow> nat \<Rightarrow> nat list" where
  "heap_build v pl n a 0 = a"
| "heap_build v pl n a (Suc l) =
     heap_build v pl n (heap_sift v (a ! (pl + Suc l - 1)) pl n a (Suc l) (2 * Suc l)) l"

fun heap_extract :: "series \<Rightarrow> nat \<Rightarrow> nat list \<Rightarrow> nat \<Rightarrow> nat list" where
  "heap_extract v pl a (Suc (Suc k)) =
     (let tmp = a ! (pl + Suc k);
          a1 = a[pl + Suc k := a ! pl]
      in heap_extract v pl (heap_sift v tmp pl (Suc k) a1 1 2) (Suc k))"
| "heap_extract v pl a n = a"

definition aheapsort :: "series \<Rightarrow> nat list \<Rightarrow> nat \<Rightarrow> nat \<Rightarrow> nat list" where
  "aheapsort v a pl n = heap_extract v pl (heap_build v pl n a (n div 2)) n"

function aquicksort_range :: "series \<Rightarrow> bool \<Rightarrow> int \<Rightarrow> nat list \<Rightarrow> nat \<Rightarrow> nat \<Rightarrow> nat list" where
  "aquicksort_range v popped cdepth a pl pr =
     (if popped \<and> cdepth < 0 then aheapsort v a pl (pr - pl + 1)
      else if pr - pl > 16
      then (let (a1, p_i) = partition_range v a pl pr
            in if p_i - pl < pr - p_i
               then aquicksort_range v True (cdepth - 1)
                      (aquicksort_range v False (cdepth - 1) a1 pl (p_i - 1)) (p_i + 1) pr
               else aquicksort_range v True (cdepth - 1)
                      (aquicksort_range v False (cdepth - 1) a1 (p_i + 1) pr) pl (p_i - 1))
      else ins_loop v pl pr a (pl + 1))"
  by pat_completeness auto
termination
proof (relation "measure (\<lambda>(v, popped, cdepth, a, pl, pr). pr - pl)", goal_cases)
  case 1
  show ?case by simp
next
  case (2 v popped cdepth a pl pr x a1 p_i)
  then have "pl < pr" "p_i = snd (partition_range v a pl pr)" by (auto simp: prod_eq_iff)
  with partition_range_bounds[of pl pr v a] show ?case by auto
next
  case (3 v popped cdepth a pl pr x a1 p_i)
  then have "pl < pr" "p_i = snd (partition_range v a pl pr)" by (auto simp: prod_eq_iff)
  with partition_range_bounds[of pl pr v a] show ?case by auto
next
  case (4 v popped cdepth a pl pr x a1 p_i)
  then have "pl < pr" "p_i = snd (partition_range v a pl pr)" by (auto simp: prod_eq_iff)
  with partition_range_bounds[of pl pr v a] show ?case by auto
next
  case (5 v popped cdepth a pl pr x a1 p_i)
  then have "pl < pr" "p_i = snd (partition_range v a pl pr)" by (auto simp: prod_eq_iff)
  with partition_range_bounds[of pl pr v a] show ?case by auto
qed

declare aquicksort_range.simps [simp del]

fun npy_get_msb :: "nat \<Rightarrow> nat" where
  "npy_get_msb n = (if n \<le> 1 then 0 else Suc (npy_get_msb (n div 2)))"

declare npy_get_msb.simps [simp del]

definition np_quicksort :: argsort where
  "np_quicksort v =
     aquicksort_range v True (int (npy_get_msb (length v)) * 2) [0..<length v] 0 (length v - 1)"

section \<open>The object store and \<open>select_stocks\<close>\<close>

text \<open>
  Data frames are mutable objects that the caller and the engine share by reference.
  The store lists the frames that exist; a reference is a position in it. The selector
  object holds the weights it was built with.
\<close>

record jreit_selector =
  weights :: scoring_weights

record store =
  frames :: "frame list"
  selector :: jreit_selector

definition alloc :: "frame \<Rightarrow> store \<Rightarrow> nat \<times> store" where
  "alloc f st = (length (frames st), st\<lparr>frames := frames st @ [f]\<rparr>)"

definition load :: "store \<Rightarrow> nat \<Rightarrow> frame" where
  "load st r = frames st ! r"

definition store_setitem :: "nat \<Rightarrow> column \<Rightarrow> series \<Rightarrow> store \<Rightarrow> store" where
  "store_setitem r c s st = st\<lparr>frames := (frames st)[r := setitem (frames st ! r) c s]\<rparr>"

text \<open>The loop that copies every score column but the total from \<open>scores\<close> to \<open>result\<close>.\<close>

fun copy_score_columns :: "column list \<Rightarrow> nat \<Rightarrow> nat \<Rightarrow> store \<Rightarrow> error + store" where
  "copy_score_columns [] scores result st = Inr st"
| "copy_score_columns (col # rest) scores result st =
     (if col \<noteq> TotalScore
      then bind_err (getitem (load st scores) col) (\<lambda>s.
             copy_score_columns rest scores result (store_setitem result col s st))
      else copy_score_columns rest scores result st)"

definition total_score :: "scoring_weights \<Rightarrow> frame \<Rightarrow> error + series" where
  "total_score w scores =
     bind_err (getitem scores DistributionYieldScore) (\<lambda>c1.
     bind_err (getitem scores NavRatioScore) (\<lambda>c2.
     bind_err (getitem scores PortfolioQualityScore) (\<lambda>c3.
     bind_err (getitem scores FinancialHealthScore) (\<lambda>c4.
     bind_err (getitem scores MarketPositionScore) (\<lambda>c5.
       Inr (series_add (series_add (series_add (series_add
              (series_mul_scalar c1 (distribution_yield w))
              (series_mul_scalar c2 (nav_ratio w)))
              (series_mul_scalar c3 (portfolio_quality w)))
              (series_mul_scalar c4 (financial_health w)))
              (series_mul_scalar c5 (market_position w))))))))"

text \<open>
  \<open>select_stocks\<close>, with the frame \<open>df\<close> given by reference. It returns the
  reference of the frame it built and the store it leaves behind.
\<close>

definition select_stocks :: "argsort \<Rightarrow> nat \<Rightarrow> int \<Rightarrow> store \<Rightarrow> error + (nat \<times> store)" where
  "select_stocks kind df top_n st0 =
     (let (scores, st1) = alloc \<lparr>index = index (load st0 df), cols = []\<rparr> st0 in
      bind_err (calculate_distribution_yield_score (load st1 df)) (\<lambda>s1.
      let st2 = store_setitem scores DistributionYieldScore s1 st1 in
      bind_err (calculate_nav_ratio_score (load st2 df)) (\<lambda>s2.
      let st3 = store_setitem scores NavRatioScore s2 st2 in
      bind_err (calculate_portfolio_quality_score (load st3 df)) (\<lambda>s3.
      let st4 = store_setitem scores PortfolioQualityScore s3 st3 in
      bind_err (calculate_financial_health_score (load st4 df)) (\<lambda>s4.
      let st5 = store_setitem scores FinancialHealthScore s4 st4 in
      bind_err (calculate_market_position_score (load st5 df)) (\<lambda>s5.
      let st6 = store_setitem scores MarketPositionScore s5 st5 in
      bind_err (total_score (weights (selector st6)) (load st6 scores)) (\<lambda>total.
      let st7 = store_setitem scores TotalScore total st6;
          (result, st8) = alloc (load st7 df) st7 in
      bind_err (getitem (load st8 scores) TotalScore) (\<lambda>t.
      let st9 = store_setitem result TotalScore t st8 in
      bind_err (copy_score_columns (map fst (cols (load st9 scores))) scores result st9) (\<lambda>st10.
      bind_err (sort_values kind (load st10 result) TotalScore False) (\<lambda>sorted_frame.
      let (sorted, st11) = alloc sorted_frame st10;
          (out, st12) = alloc (head (load st11 sorted) top_n) st11
      in Inr (out, st12)))))))))))"

text \<open>
  What a caller reads from the returned frame: a column of it, and its row labels.
\<close>

definition returned_column :: "error + nat \<times> store \<Rightarrow> column \<Rightarrow> error + series" where
  "returned_column r c = bind_err r (\<lambda>(out, st'). getitem (load st' out) c)"


section \<open>Auxiliary definitions\<close>

text \<open>
  The frames that a run of \<open>select_stocks\<close> leaves in the store, written out from
  the five sub-score Series: the weighted sum of line 71 to 77, the \<open>scores\<close> frame
  and the \<open>result\<close> frame before it is sorted.
\<close>

definition composite :: "scoring_weights \<Rightarrow> series \<Rightarrow> series \<Rightarrow> series \<Rightarrow> series \<Rightarrow> series \<Rightarrow> series" where
  "composite w s1 s2 s3 s4 s5 =
     series_add (series_add (series_add (series_add
        (series_mul_scalar s1 (distribution_yield w))
        (series_mul_scalar s2 (nav_ratio w)))
        (series_mul_scalar s3 (portfolio_quality w)))
        (series_mul_scalar s4 (financial_health w)))
        (series_mul_scalar s5 (market_position w))"

definition scores_frame :: "frame \<Rightarrow> series \<Rightarrow> series \<Rightarrow> series \<Rightarrow> series \<Rightarrow> series \<Rightarrow> series \<Rightarrow> frame" where
  "scores_frame d tot s1 s2 s3 s4 s5 =
     \<lparr>index = index d,
      cols = [(DistributionYieldScore, s1), (NavRatioScore, s2), (PortfolioQualityScore, s3),
              (FinancialHealthScore, s4), (MarketPositionScore, s5), (TotalScore, tot)]\<rparr>"

definition result_frame :: "frame \<Rightarrow> series \<Rightarrow> series \<Rightarrow> series \<Rightarrow> series \<Rightarrow> series \<Rightarrow> series \<Rightarrow> frame" where
  "result_frame d tot s1 s2 s3 s4 s5 =
     setitem (setitem (setitem (setitem (setitem (setitem d TotalScore tot)
       DistributionYieldScore s1) NavRatioScore s2) PortfolioQualityScore s3)
       FinancialHealthScore s4) MarketPositionScore s5"

text \<open>
  The frame after \<open>sort_values\<close>, and the store that a run leaves behind: the
  frames \<open>scores\<close>, \<open>result\<close>, the sorted frame and its head are new objects
  behind the ones that existed.
\<close>

definition sorted_frame :: "argsort \<Rightarrow> scoring_weights \<Rightarrow> frame \<Rightarrow> series \<Rightarrow> series \<Rightarrow> series \<Rightarrow> series \<Rightarrow> series \<Rightarrow> frame" where
  "sorted_frame kind w d s1 s2 s3 s4 s5 =
     take_rows (result_frame d (composite w s1 s2 s3 s4 s5) s1 s2 s3 s4 s5)
       (nargsort kind (composite w s1 s2 s3 s4 s5) False)"

definition final_store :: "argsort \<Rightarrow> int \<Rightarrow> store \<Rightarrow> frame \<Rightarrow> series \<Rightarrow> series \<Rightarrow> series \<Rightarrow> series \<Rightarrow> series \<Rightarrow> store" where
  "final_store kind top_n st d s1 s2 s3 s4 s5 =
     st\<lparr>frames := frames st @
       [scores_frame d (composite (weights (selector st)) s1 s2 s3 s4 s5) s1 s2 s3 s4 s5,
        result_frame d (composite (weights (selector st)) s1 s2 s3 s4 s5) s1 s2 s3 s4 s5,
        sorted_frame kind (weights (selector st)) d s1 s2 s3 s4 s5,
        head (sorted_frame kind (weights (selector st)) d s1 s2 s3 s4 s5) top_n]\<rparr>"

text \<open>
  An entity table has the eight columns the engine reads, and every column has one
  value per row label (as in every pandas frame).
\<close>

definition required_columns :: "column list" where
  "required_columns =
     [DistributionYield, NavRatio, AverageBuildingAge, BuildingCount,
      LeverageRatio, Roe, MarketCap, AssetSize]"

definition entity_table :: "frame \<Rightarrow> bool" where
  "entity_table df =
     (list_all (\<lambda>c. map_of (cols df) c \<noteq> None) required_columns \<and>
      list_all (\<lambda>(c, s). length s = length (index df)) (cols df))"

text \<open>
  The result of \<open>normalize_column\<close> on a column, the number of rows that
  \<open>head\<close> keeps, and the order of a stable argsort: by key, then by position.
\<close>

definition norm_series :: "series \<Rightarrow> series" where
  "norm_series s =
     series_div_scalar (series_sub_scalar s (series_min s)) (fl_sub (series_max s) (series_min s))"

definition head_count :: "nat \<Rightarrow> int \<Rightarrow> nat" where
  "head_count len n = (if 0 \<le> n then nat n else len - nat (- n))"

definition key_then_pos :: "series \<Rightarrow> nat \<Rightarrow> nat \<Rightarrow> bool" where
  "key_then_pos ks i j = (fl_less (ks ! i) (ks ! j) \<or> (ks ! i = ks ! j \<and> i < j))"

text \<open>
  The insertion step of \<open>ins_loop\<close> as a function on the sorted prefix, read from its
  right end.
\<close>

fun ins_rev :: "series \<Rightarrow> nat \<Rightarrow> nat list \<Rightarrow> nat list" where
  "ins_rev v i [] = [i]"
| "ins_rev v i (l # ls) = (if np_less (v ! i) (v ! l) then l # ins_rev v i ls else i # l # ls)"

section \<open>Example tables\<close>

text \<open>
  The two rows A and B of the spec's concrete scenario; a table without rows; a single
  row; tables with small and with negative NAV ratios; two rows that agree in every
  column; and eighteen rows of which the sixteen in the middle are alike.
\<close>

definition table_ab :: frame where
  "table_ab =
     \<lparr>index = [8951, 8952],
      cols = [(DistributionYield, [Fin (5 / 100), Fin (3 / 100)]),
              (NavRatio, [Fin 1, Fin (12 / 10)]),
              (MarketCap, [Fin 100000000000, Fin 50000000000]),
              (AssetSize, [Fin 200000000000, Fin 100000000000]),
              (BuildingCount, [Fin 10, Fin 5]),
              (AverageBuildingAge, [Fin 5, Fin 15]),
              (LeverageRatio, [Fin (4 / 10), Fin (6 / 10)]),
              (Roe, [Fin (8 / 100), Fin (4 / 100)])]\<rparr>"

definition store_ab :: store where
  "store_ab = \<lparr>frames = [table_ab], selector = \<lparr>weights = default_weights\<rparr>\<rparr>"

definition store_heavy :: store where
  "store_heavy =
     \<lparr>frames = [table_ab],
      selector = \<lparr>weights = \<lparr>distribution_yield = Fin (4 / 10), nav_ratio = Fin (4 / 10),
        portfolio_quality = Fin (4 / 10), financial_health = Fin (4 / 10),
        market_position = Fin (4 / 10)\<rparr>\<rparr>\<rparr>"

definition table_empty :: frame where
  "table_empty =
     \<lparr>index = [],
      cols = [(DistributionYield, []), (NavRatio, []), (MarketCap, []), (AssetSize, []),
              (BuildingCount, []), (AverageBuildingAge, []), (LeverageRatio, []), (Roe, [])]\<rparr>"

definition store_empty :: store where
  "store_empty = \<lparr>frames = [table_empty], selector = \<lparr>weights = default_weights\<rparr>\<rparr>"

definition table_single :: frame where
  "table_single =
     \<lparr>index = [8951],
      cols = [(DistributionYield, [Fin (5 / 100)]), (NavRatio, [Fin 1]),
              (MarketCap, [Fin 100000000000]), (AssetSize, [Fin 200000000000]),
              (BuildingCount, [Fin 10]), (AverageBuildingAge, [Fin 5]),
              (LeverageRatio, [Fin (4 / 10)]), (Roe, [Fin (8 / 100)])]\<rparr>"

definition table_low_nav :: frame where
  "table_low_nav =
     \<lparr>index = [8951, 8952],
      cols = [(DistributionYield, [Fin (5 / 100), Fin (3 / 100)]),
              (NavRatio, [Fin (1 / 10), Fin (2 / 10)]),
              (MarketCap, [Fin 100000000000, Fin 50000000000]),
              (AssetSize, [Fin 200000000000, Fin 100000000000]),
              (BuildingCount, [Fin 10, Fin 5]),
              (AverageBuildingAge, [Fin 5, Fin 15]),
              (LeverageRatio, [Fin (4 / 10), Fin (6 / 10)]),
              (Roe, [Fin (8 / 100), Fin (4 / 100)])]\<rparr>"

definition table_negative_nav :: frame where
  "table_negative_nav =
     \<lparr>index = [8951, 8952],
      cols = [(DistributionYield, [Fin (5 / 100), Fin (3 / 100)]),
              (NavRatio, [Fin (- 1), Fin (- 2)]),
              (MarketCap, [Fin 100000000000, Fin 50000000000]),
              (AssetSize, [Fin 200000000000, Fin 100000000000]),
              (BuildingCount, [Fin 10, Fin 5]),
              (AverageBuildingAge, [Fin 5, Fin 15]),
              (LeverageRatio, [Fin (4 / 10), Fin (6 / 10)]),
              (Roe, [Fin (8 / 100), Fin (4 / 100)])]\<rparr>"

definition table_same :: frame where
  "table_same =
     \<lparr>index = [8951, 8952],
      cols = [(DistributionYield, [Fin (5 / 100), Fin (5 / 100)]),
              (NavRatio, [Fin 1, Fin 1]),
              (MarketCap, [Fin 100000000000, Fin 100000000000]),
              (AssetSize, [Fin 200000000000, Fin 200000000000]),
              (BuildingCount, [Fin 10, Fin 10]),
              (AverageBuildingAge, [Fin 5, Fin 5]),
              (LeverageRatio, [Fin (4 / 10), Fin (4 / 10)]),
              (Roe, [Fin (8 / 100), Fin (8 / 100)])]\<rparr>"

definition store_same :: store where
  "store_same = \<lparr>frames = [table_same], selector = \<lparr>weights = default_weights\<rparr>\<rparr>"




section \<open>Lemmas\<close>

lemma bind_err_Inr: "bind_err (Inr x) f = f x"
  by (simp add: bind_err_def)

lemma bind_err_Inl: "bind_err (Inl e) f = Inl e"
  by (simp add: bind_err_def)

lemma getitem_setitem: "getitem (setitem f c s) c' = (if c' = c then Inr s else getitem f c')"
  by (simp add: getitem_def setitem_def update_conv')


lemma load_old: "df < length F \<Longrightarrow> load (st\<lparr>frames := F @ fs\<rparr>) df = F ! df"
  by (simp add: load_def nth_append)

lemma load_new0: "load (st\<lparr>frames := F @ f # fs\<rparr>) (length F) = f"
  by (simp add: load_def)

lemma load_new1: "load (st\<lparr>frames := F @ f0 # f # fs\<rparr>) (Suc (length F)) = f"
  by (simp add: load_def nth_append)

lemma set_new0:
  "store_setitem (length F) c s (st\<lparr>frames := F @ f # fs\<rparr>) = st\<lparr>frames := F @ setitem f c s # fs\<rparr>"
  by (simp add: store_setitem_def)

lemma set_new1:
  "store_setitem (Suc (length F)) c s (st\<lparr>frames := F @ f0 # f # fs\<rparr>) =
     st\<lparr>frames := F @ f0 # setitem f c s # fs\<rparr>"
  by (simp add: store_setitem_def list_update_append nth_append)

lemma alloc_new: "alloc f (st\<lparr>frames := F\<rparr>) = (length F, st\<lparr>frames := F @ [f]\<rparr>)"
  by (simp add: alloc_def)

lemma alloc_first: "alloc f st = (length (frames st), st\<lparr>frames := frames st @ [f]\<rparr>)"
  by (simp add: alloc_def)

lemma scores_built:
  "setitem (setitem (setitem (setitem (setitem (setitem \<lparr>index = i, cols = []\<rparr>
      DistributionYieldScore s1) NavRatioScore s2) PortfolioQualityScore s3)
      FinancialHealthScore s4) MarketPositionScore s5) TotalScore tot =
   \<lparr>index = i, cols = [(DistributionYieldScore, s1), (NavRatioScore, s2), (PortfolioQualityScore, s3),
              (FinancialHealthScore, s4), (MarketPositionScore, s5), (TotalScore, tot)]\<rparr>"
  by (simp add: setitem_def)

lemma total_score_built:
  "total_score w (setitem (setitem (setitem (setitem (setitem f
      DistributionYieldScore s1) NavRatioScore s2) PortfolioQualityScore s3)
      FinancialHealthScore s4) MarketPositionScore s5) = Inr (composite w s1 s2 s3 s4 s5)"
  by (simp add: total_score_def getitem_setitem bind_err_Inr composite_def)

lemma getitem_scores_total:
  "getitem (scores_frame d tot s1 s2 s3 s4 s5) TotalScore = Inr tot"
  "getitem (scores_frame d tot s1 s2 s3 s4 s5) DistributionYieldScore = Inr s1"
  "getitem (scores_frame d tot s1 s2 s3 s4 s5) NavRatioScore = Inr s2"
  "getitem (scores_frame d tot s1 s2 s3 s4 s5) PortfolioQualityScore = Inr s3"
  "getitem (scores_frame d tot s1 s2 s3 s4 s5) FinancialHealthScore = Inr s4"
  "getitem (scores_frame d tot s1 s2 s3 s4 s5) MarketPositionScore = Inr s5"
  by (simp_all add: getitem_def scores_frame_def)

lemma cols_scores: "map fst (cols (scores_frame d tot s1 s2 s3 s4 s5)) =
   [DistributionYieldScore, NavRatioScore, PortfolioQualityScore,
       FinancialHealthScore, MarketPositionScore, TotalScore]"
  by (simp add: scores_frame_def)

lemma copy_built:
  "copy_score_columns [DistributionYieldScore, NavRatioScore, PortfolioQualityScore,
       FinancialHealthScore, MarketPositionScore, TotalScore] (length F) (Suc (length F))
     (st\<lparr>frames := F @ [scores_frame d tot s1 s2 s3 s4 s5, r]\<rparr>) =
   Inr (st\<lparr>frames := F @ [scores_frame d tot s1 s2 s3 s4 s5,
      setitem (setitem (setitem (setitem (setitem r
       DistributionYieldScore s1) NavRatioScore s2) PortfolioQualityScore s3)
       FinancialHealthScore s4) MarketPositionScore s5]\<rparr>)"
  by (simp add: load_new0 set_new1 bind_err_Inr getitem_scores_total)

lemma select_stocks_char:
  assumes "df < length (frames st)"
    and "calculate_distribution_yield_score (frames st ! df) = Inr s1"
    and "calculate_nav_ratio_score (frames st ! df) = Inr s2"
    and "calculate_portfolio_quality_score (frames st ! df) = Inr s3"
    and "calculate_financial_health_score (frames st ! df) = Inr s4"
    and "calculate_market_position_score (frames st ! df) = Inr s5"
  shows "select_stocks kind df n st =
     (let d = frames st ! df;
          tot = composite (weights (selector st)) s1 s2 s3 s4 s5;
          res = result_frame d tot s1 s2 s3 s4 s5;
          srt = take_rows res (nargsort kind tot False)
      in Inr (length (frames st) + 3,
              st\<lparr>frames := frames st @ [scores_frame d tot s1 s2 s3 s4 s5, res, srt, head srt n]\<rparr>))"
proof -
  have ld: "\<And>fs. load (st\<lparr>frames := frames st @ fs\<rparr>) df = frames st ! df"
    using assms(1) by (rule load_old)
  have ld0: "load st df = frames st ! df"
    by (simp add: load_def)
  show ?thesis
    unfolding select_stocks_def alloc_first
    apply (simp only: prod.case Let_def ld ld0 assms(2-) bind_err_Inr set_new0 load_new0
        total_score_built scores_built alloc_new append.simps append_assoc length_append
        list.size add_Suc_right add_0_right store.simps getitem_setitem if_True
        refl)
    apply (simp only: scores_frame_def[symmetric])
    apply (simp add: getitem_scores_total cols_scores copy_built load_new1 load_new0 set_new1
        sort_values_def getitem_setitem bind_err_Inr alloc_new result_frame_def Let_def)
    done
qed

lemma entity_col:
  assumes "entity_table df" and "c \<in> set required_columns"
  shows "\<exists>s. map_of (cols df) c = Some s \<and> length s = length (index df)"
proof -
  from assms obtain s where s: "map_of (cols df) c = Some s"
    by (auto simp: entity_table_def list_all_iff)
  then have "(c, s) \<in> set (cols df)" by (rule map_of_SomeD)
  with assms(1) have "length s = length (index df)"
    by (auto simp: entity_table_def list_all_iff)
  with s show ?thesis by blast
qed

lemma normalize_column_Some:
  "map_of (cols df) c = Some s \<Longrightarrow> normalize_column df c a = Inr (norm_series s)"
  by (simp add: normalize_column_def getitem_def bind_err_def norm_series_def)

lemma length_norm_series: "length (norm_series s) = length s"
  by (simp add: norm_series_def series_div_scalar_def series_sub_scalar_def)

lemma length_series_ops:
  "length (series_sub_scalar s c) = length s"
  "length (scalar_sub_series c s) = length s"
  "length (series_div_scalar s c) = length s"
  "length (series_mul_scalar s c) = length s"
  "length (series_abs s) = length s"
  "length (series_add s t) = min (length s) (length t)"
  by (simp_all add: series_sub_scalar_def scalar_sub_series_def series_div_scalar_def
      series_mul_scalar_def series_abs_def series_add_def)

lemma normalize_column_entity:
  assumes "entity_table df" and "c \<in> set required_columns"
  shows "\<exists>s. normalize_column df c a = Inr s \<and> length s = length (index df)"
  using entity_col[OF assms] by (auto simp: normalize_column_Some length_norm_series)

lemma calculate_distribution_yield_score_entity:
  assumes "entity_table df"
  shows "\<exists>s. calculate_distribution_yield_score df = Inr s \<and> length s = length (index df)"
  unfolding calculate_distribution_yield_score_def
  by (rule normalize_column_entity[OF assms]) (simp add: required_columns_def)

lemma calculate_nav_ratio_score_entity:
  assumes "entity_table df"
  shows "\<exists>s. calculate_nav_ratio_score df = Inr s \<and> length s = length (index df)"
proof -
  have "NavRatio \<in> set required_columns" by (simp add: required_columns_def)
  from entity_col[OF assms this] show ?thesis
    by (auto simp: calculate_nav_ratio_score_def getitem_def bind_err_def length_series_ops)
qed

lemma pair_score_entity:
  assumes "entity_table df" and "c1 \<in> set required_columns" and "c2 \<in> set required_columns"
  shows "\<exists>s1 s2. normalize_column df c1 True = Inr s1 \<and> normalize_column df c2 True = Inr s2
           \<and> length s1 = length (index df) \<and> length s2 = length (index df)"
  using normalize_column_entity[OF assms(1,2), of True] normalize_column_entity[OF assms(1,3), of True]
  by blast

lemma calculate_portfolio_quality_score_entity:
  assumes "entity_table df"
  shows "\<exists>s. calculate_portfolio_quality_score df = Inr s \<and> length s = length (index df)"
proof -
  have "AverageBuildingAge \<in> set required_columns" "BuildingCount \<in> set required_columns"
    by (simp_all add: required_columns_def)
  from pair_score_entity[OF assms this] show ?thesis
    by (auto simp: calculate_portfolio_quality_score_def bind_err_def length_series_ops)
qed

lemma calculate_financial_health_score_entity:
  assumes "entity_table df"
  shows "\<exists>s. calculate_financial_health_score df = Inr s \<and> length s = length (index df)"
proof -
  have "LeverageRatio \<in> set required_columns" "Roe \<in> set required_columns"
    by (simp_all add: required_columns_def)
  from pair_score_entity[OF assms this] show ?thesis
    by (auto simp: calculate_financial_health_score_def bind_err_def length_series_ops)
qed

lemma calculate_market_position_score_entity:
  assumes "entity_table df"
  shows "\<exists>s. calculate_market_position_score df = Inr s \<and> length s = length (index df)"
proof -
  have "MarketCap \<in> set required_columns" "AssetSize \<in> set required_columns"
    by (simp_all add: required_columns_def)
  from pair_score_entity[OF assms this] show ?thesis
    by (auto simp: calculate_market_position_score_def bind_err_def length_series_ops)
qed

lemma length_composite:
  "length s1 = n \<Longrightarrow> length s2 = n \<Longrightarrow> length s3 = n \<Longrightarrow> length s4 = n \<Longrightarrow> length s5 = n
   \<Longrightarrow> length (composite w s1 s2 s3 s4 s5) = n"
  by (simp add: composite_def length_series_ops)

lemma composite_nth:
  assumes "length s1 = n" "length s2 = n" "length s3 = n" "length s4 = n" "length s5 = n" "i < n"
  shows "composite w s1 s2 s3 s4 s5 ! i =
     fl_add (fl_add (fl_add (fl_add
        (fl_mul (s1 ! i) (distribution_yield w))
        (fl_mul (s2 ! i) (nav_ratio w)))
        (fl_mul (s3 ! i) (portfolio_quality w)))
        (fl_mul (s4 ! i) (financial_health w)))
        (fl_mul (s5 ! i) (market_position w))"
  using assms by (simp add: composite_def series_add_def series_mul_scalar_def)

lemma getitem_take_rows:
  "getitem (take_rows f ix) c =
     (case getitem f c of Inl e \<Rightarrow> Inl e | Inr s \<Rightarrow> Inr (map (\<lambda>i. s ! i) ix))"
  by (simp add: getitem_def take_rows_def map_of_map split: option.split)

lemma getitem_head:
  "getitem (head f n) c =
     (case getitem f c of Inl e \<Rightarrow> Inl e
      | Inr s \<Rightarrow> Inr (take (head_count (length (index f)) n) s))"
  by (simp add: getitem_def head_def head_count_def map_of_map Let_def split: option.split)

lemma index_head: "index (head f n) = take (head_count (length (index f)) n) (index f)"
  by (simp add: head_def head_count_def Let_def)

lemma index_take_rows: "index (take_rows f ix) = map (\<lambda>i. index f ! i) ix"
  by (simp add: take_rows_def)


lemma getitem_result_frame:
  "getitem (result_frame d tot s1 s2 s3 s4 s5) TotalScore = Inr tot"
  "getitem (result_frame d tot s1 s2 s3 s4 s5) DistributionYieldScore = Inr s1"
  "getitem (result_frame d tot s1 s2 s3 s4 s5) NavRatioScore = Inr s2"
  "getitem (result_frame d tot s1 s2 s3 s4 s5) PortfolioQualityScore = Inr s3"
  "getitem (result_frame d tot s1 s2 s3 s4 s5) FinancialHealthScore = Inr s4"
  "getitem (result_frame d tot s1 s2 s3 s4 s5) MarketPositionScore = Inr s5"
  by (simp_all add: result_frame_def getitem_setitem)

lemma fl_le_refl: "\<not> is_nan a \<Longrightarrow> fl_le a a"
  by (simp add: fl_le_def fl_eq_def)

lemma fl_less_trans: "fl_less a b \<Longrightarrow> fl_less b c \<Longrightarrow> fl_less a c"
  by (cases a; cases b; cases c) auto

lemma fl_le_trans: "fl_le a b \<Longrightarrow> fl_le b c \<Longrightarrow> fl_le a c"
  by (cases a; cases b; cases c) (auto simp: fl_le_def fl_eq_def)

lemma fl_le_total: "\<not> is_nan a \<Longrightarrow> \<not> is_nan b \<Longrightarrow> fl_le a b \<or> fl_less b a"
  by (cases a; cases b) (auto simp: fl_le_def fl_eq_def)

lemma fl_less_not_nan: "fl_less a b \<Longrightarrow> \<not> is_nan a \<and> \<not> is_nan b"
  by (cases a; cases b) auto


lemma fl_less_imp_le: "fl_less a b \<Longrightarrow> fl_le a b"
  by (simp add: fl_le_def)

text \<open>The positions kept and set aside by \<open>nargsort\<close>.\<close>

lemma non_nans_map:
  "filter (\<lambda>x. \<not> is_nan x) items =
   map (\<lambda>i. items ! i) (filter (\<lambda>i. \<not> is_nan (items ! i)) [0..<length items])"
proof -
  have "filter (\<lambda>x. \<not> is_nan x) (map (\<lambda>i. items ! i) [0..<length items]) =
        map (\<lambda>i. items ! i) (filter (\<lambda>i. \<not> is_nan (items ! i)) [0..<length items])"
    by (simp add: filter_map comp_def)
  then show ?thesis by (simp add: map_nth)
qed

lemma mset_map_perm:
  assumes "mset p = mset [0..<length xs]"
  shows "mset (map (\<lambda>j. xs ! j) p) = mset xs"
proof -
  have "mset (map (\<lambda>j. xs ! j) p) = image_mset (\<lambda>j. xs ! j) (mset p)" by simp
  also have "\<dots> = image_mset (\<lambda>j. xs ! j) (mset [0..<length xs])" using assms by simp
  also have "\<dots> = mset (map (\<lambda>j. xs ! j) [0..<length xs])" by simp
  also have "\<dots> = mset xs" by (simp add: map_nth)
  finally show ?thesis .
qed

lemma mset_filter_split: "mset (filter P xs) + mset (filter (\<lambda>x. \<not> P x) xs) = mset xs"
  by (induction xs) auto

lemma nargsort_desc_mset:
  assumes "argsort_spec (length items) kind"
  shows "mset (nargsort kind items False) = mset [0..<length items]"
proof -
  let ?nn = "filter (\<lambda>x. \<not> is_nan x) items"
  let ?ni = "filter (\<lambda>i. \<not> is_nan (items ! i)) [0..<length items]"
  let ?na = "filter (\<lambda>i. is_nan (items ! i)) [0..<length items]"
  have len: "length ?nn = length ?ni" by (subst non_nans_map) simp
  have "length (rev ?nn) \<le> length items \<and> (\<forall>k \<in> set (rev ?nn). \<not> is_nan k)" by simp
  with assms have "mset (kind (rev ?nn)) = mset [0..<length (rev ?nn)]"
    unfolding argsort_spec_def by blast
  then have "mset (kind (rev ?nn)) = mset [0..<length (rev ?ni)]" using len by simp
  then have "mset (map (\<lambda>j. rev ?ni ! j) (kind (rev ?nn))) = mset (rev ?ni)"
    by (rule mset_map_perm)
  then have "mset (nargsort kind items False) = mset ?ni + mset ?na"
    by (simp add: nargsort_def Let_def)
  also have "\<dots> = mset [0..<length items]"
    using mset_filter_split[of "\<lambda>i. \<not> is_nan (items ! i)" "[0..<length items]"]
    by (simp only: not_not)
  finally show ?thesis .
qed

lemma nargsort_desc_set:
  assumes "argsort_spec (length items) kind"
  shows "set (nargsort kind items False) = {0..<length items}"
proof -
  have "set (nargsort kind items False) = set [0..<length items]"
    using nargsort_desc_mset[OF assms] by (rule mset_eq_setD)
  then show ?thesis by simp
qed

lemma nargsort_desc_length:
  assumes "argsort_spec (length items) kind"
  shows "length (nargsort kind items False) = length items"
proof -
  have "length (nargsort kind items False) = length [0..<length items]"
    using nargsort_desc_mset[OF assms] by (rule mset_eq_length)
  then show ?thesis by simp
qed


lemma set_insert_idx: "set (insert_idx ks i js) = insert i (set js)"
  by (induction js) auto

lemma mset_insert_idx: "mset (insert_idx ks i js) = add_mset i (mset js)"
  by (induction js) auto

lemma mset_stable_upto: "mset (stable_upto ks n) = mset [0..<n]"
  by (induction n) (auto simp: mset_insert_idx)

lemma set_stable_upto: "set (stable_upto ks n) = {0..<n}"
  using mset_stable_upto[of ks n] by (metis mset_eq_setD set_upt)

lemma sorted_insert_idx:
  assumes "sorted_wrt (key_then_pos ks) js"
    and "\<forall>j \<in> set js. j < i \<and> \<not> is_nan (ks ! j)"
    and "\<not> is_nan (ks ! i)"
  shows "sorted_wrt (key_then_pos ks) (insert_idx ks i js)"
  using assms
proof (induction js)
  case Nil
  then show ?case by simp
next
  case (Cons j js)
  show ?case
  proof (cases "fl_less (ks ! i) (ks ! j)")
    case True
    have "key_then_pos ks i x" if "x \<in> set (j # js)" for x
    proof (cases "x = j")
      case True
      with \<open>fl_less (ks ! i) (ks ! j)\<close> show ?thesis by (simp add: key_then_pos_def)
    next
      case False
      with that Cons.prems(1) have "key_then_pos ks j x" by auto
      then have "fl_less (ks ! i) (ks ! x)"
        using \<open>fl_less (ks ! i) (ks ! j)\<close> fl_less_trans by (auto simp: key_then_pos_def)
      then show ?thesis by (simp add: key_then_pos_def)
    qed
    with True Cons.prems(1) show ?thesis by auto
  next
    case False
    have ji: "key_then_pos ks j i"
    proof -
      have "\<not> is_nan (ks ! j)" "j < i" using Cons.prems(2) by auto
      with False Cons.prems(3) fl_le_total[of "ks ! i" "ks ! j"] show ?thesis
        by (auto simp: key_then_pos_def fl_le_def fl_eq_def)
    qed
    have "sorted_wrt (key_then_pos ks) (insert_idx ks i js)"
      using Cons by auto
    moreover have "\<forall>x \<in> set (insert_idx ks i js). key_then_pos ks j x"
      using ji Cons.prems(1) by (auto simp: set_insert_idx)
    ultimately show ?thesis using False by simp
  qed
qed

lemma sorted_stable_upto:
  assumes "\<forall>k \<in> set ks. \<not> is_nan k" and "n \<le> length ks"
  shows "sorted_wrt (key_then_pos ks) (stable_upto ks n)"
  using assms(2)
proof (induction n)
  case 0
  then show ?case by simp
next
  case (Suc n)
  then have "sorted_wrt (key_then_pos ks) (stable_upto ks n)" by simp
  moreover have "\<forall>j \<in> set (stable_upto ks n). j < n \<and> \<not> is_nan (ks ! j)"
    using assms(1) Suc.prems by (auto simp: set_stable_upto)
  moreover have "\<not> is_nan (ks ! n)" using assms(1) Suc.prems by simp
  ultimately show ?case by (simp add: sorted_insert_idx)
qed

lemma argsort_stable_is_stable: "argsort_stable_spec n argsort_stable"
  unfolding argsort_stable_spec_def argsort_stable_def
  using sorted_stable_upto mset_stable_upto
  by (auto simp: key_then_pos_def[abs_def])

lemma argsort_stable_spec_imp_spec:
  assumes "argsort_stable_spec n kind"
  shows "argsort_spec n kind"
  unfolding argsort_spec_def
proof (intro allI impI conjI)
  fix ks :: series
  assume bnd: "length ks \<le> n \<and> (\<forall>k \<in> set ks. \<not> is_nan k)"
  then have nn: "\<forall>k \<in> set ks. \<not> is_nan k" by simp
  from assms bnd have m: "mset (kind ks) = mset [0..<length ks]"
    and s: "sorted_wrt (\<lambda>i j. fl_less (ks ! i) (ks ! j) \<or> (ks ! i = ks ! j \<and> i < j)) (kind ks)"
    unfolding argsort_stable_spec_def by blast+
  show "mset (kind ks) = mset [0..<length ks]" by (rule m)
  have "set (kind ks) = set [0..<length ks]" using m by (rule mset_eq_setD)
  then have mem: "\<And>i. i \<in> set (kind ks) \<Longrightarrow> \<not> is_nan (ks ! i)" using nn by auto
  show "sorted_wrt (\<lambda>i j. fl_le (ks ! i) (ks ! j)) (kind ks)"
    by (rule sorted_wrt_mono_rel[OF _ s]) (auto simp: fl_le_def fl_eq_def dest: mem)
qed

lemma argsort_stable_sorts: "argsort_spec n argsort_stable"
  by (rule argsort_stable_spec_imp_spec[OF argsort_stable_is_stable])

text \<open>
  On at most 17 keys numpy's quicksort is its insertion sort, and returns what the
  stable argsort returns.
\<close>

lemma ins_shift_correct:
  "a = pre @ h # post \<Longrightarrow> p_j = length pre \<Longrightarrow>
   (case ins_shift v (v ! i) 0 a p_j of (a', k) \<Rightarrow>
      a'[k := i] = rev (ins_rev v i (rev pre)) @ post)"
proof (induction pre arbitrary: a h post p_j rule: rev_induct)
  case Nil
  then show ?case by (subst ins_shift.simps) simp
next
  case (snoc l xs)
  have al: "a ! (p_j - 1) = l" using snoc.prems by (simp add: nth_append)
  show ?case
  proof (cases "np_less (v ! i) (v ! l)")
    case True
    have upd: "a[p_j := a ! (p_j - 1)] = xs @ l # (l # post)"
      using snoc.prems al by (simp add: list_update_append)
    have pj: "p_j - 1 = length xs" using snoc.prems by simp
    from snoc.IH[OF upd pj] True al snoc.prems
    show ?thesis by (subst ins_shift.simps) simp
  next
    case False
    with al snoc.prems show ?thesis
      by (subst ins_shift.simps) (simp add: list_update_append)
  qed
qed

lemma insert_idx_snoc_less:
  "fl_less (ks ! i) (ks ! l) \<Longrightarrow> insert_idx ks i (xs @ [l]) = insert_idx ks i xs @ [l]"
  by (induction xs) auto

lemma insert_idx_all_le:
  "\<forall>x \<in> set ys. \<not> fl_less (ks ! i) (ks ! x) \<Longrightarrow> insert_idx ks i ys = ys @ [i]"
  by (induction ys) auto

lemma np_less_fl_less: "\<not> is_nan b \<Longrightarrow> np_less a b = fl_less a b"
  by (simp add: np_less_def)

lemma ins_rev_insert_idx:
  assumes "sorted_wrt (key_then_pos v) pre"
    and "\<forall>j \<in> set pre. \<not> is_nan (v ! j)"
  shows "rev (ins_rev v i (rev pre)) = insert_idx v i pre"
  using assms
proof (induction pre rule: rev_induct)
  case Nil
  then show ?case by simp
next
  case (snoc l xs)
  have nl: "\<not> is_nan (v ! l)" using snoc.prems by simp
  have sx: "sorted_wrt (key_then_pos v) xs" "\<forall>j \<in> set xs. \<not> is_nan (v ! j)"
    using snoc.prems by (auto simp: sorted_wrt_append)
  show ?case
  proof (cases "fl_less (v ! i) (v ! l)")
    case True
    with snoc.IH[OF sx] nl show ?thesis
      by (simp add: np_less_fl_less insert_idx_snoc_less)
  next
    case False
    have "\<not> fl_less (v ! i) (v ! x)" if "x \<in> set (xs @ [l])" for x
    proof (cases "x = l")
      case True
      with False show ?thesis by simp
    next
      case False
      with that snoc.prems(1) have "key_then_pos v x l" by (auto simp: sorted_wrt_append)
      then have "fl_le (v ! x) (v ! l)"
        using nl by (auto simp: key_then_pos_def fl_le_def fl_eq_def)
      then show ?thesis
        using \<open>\<not> fl_less (v ! i) (v ! l)\<close> fl_less_trans[of "v ! i" "v ! x" "v ! l"]
        by (auto simp: fl_le_def fl_eq_def)
    qed
    then have "insert_idx v i (xs @ [l]) = (xs @ [l]) @ [i]"
      by (intro insert_idx_all_le) blast
    with False nl show ?thesis by (simp add: np_less_fl_less)
  qed
qed

lemma length_stable_upto: "length (stable_upto ks n) = n"
  using mset_stable_upto[of ks n] by (metis mset_eq_length length_upt diff_zero)

lemma ins_loop_correct:
  assumes "\<forall>k \<in> set v. \<not> is_nan k" and "length v = n" and "0 < n"
  shows "p_i \<le> n \<Longrightarrow> a = stable_upto v p_i @ [p_i..<n] \<Longrightarrow>
         ins_loop v 0 (n - 1) a p_i = stable_upto v n"
proof (induction "n - p_i" arbitrary: p_i a)
  case 0
  then have "p_i = n" by simp
  moreover have "\<not> n \<le> n - 1" using assms(3) by linarith
  ultimately show ?case using 0 by (subst ins_loop.simps) simp
next
  case (Suc d)
  then have lt: "p_i < n" by simp
  let ?pre = "stable_upto v p_i"
  have a: "a = ?pre @ p_i # [Suc p_i..<n]"
    using Suc.prems lt by (simp add: upt_conv_Cons)
  have lp: "p_i = length ?pre" by (simp add: length_stable_upto)
  have vi: "a ! p_i = p_i" using a by (simp add: nth_append length_stable_upto)
  have srt: "sorted_wrt (key_then_pos v) ?pre"
    using assms(1,2) lt by (intro sorted_stable_upto) auto
  have nn: "\<forall>j \<in> set ?pre. \<not> is_nan (v ! j)"
    using assms(1,2) lt by (auto simp: set_stable_upto)
  obtain a' k where sh: "ins_shift v (v ! p_i) 0 a p_i = (a', k)" by force
  from ins_shift_correct[OF a lp, where v = v and i = p_i] sh
  have "a'[k := p_i] = rev (ins_rev v p_i (rev ?pre)) @ [Suc p_i..<n]" by simp
  then have next_a: "a'[k := p_i] = stable_upto v (Suc p_i) @ [Suc p_i..<n]"
    by (simp add: ins_rev_insert_idx[OF srt nn])
  have "ins_loop v 0 (n - 1) (a'[k := p_i]) (Suc p_i) = stable_upto v n"
    using Suc.hyps(2) lt by (intro Suc.hyps(1)[OF _ _ next_a]) auto
  moreover have "p_i \<le> n - 1" using lt by linarith
  ultimately show ?case using vi sh by (subst ins_loop.simps) (simp add: Let_def)
qed

lemma npy_get_msb_nonneg: "0 \<le> int (npy_get_msb n) * 2"
  by simp

lemma np_quicksort_small:
  assumes "length ks \<le> 17" and "\<forall>k \<in> set ks. \<not> is_nan k"
  shows "np_quicksort ks = argsort_stable ks"
proof (cases "length ks = 0")
  case True
  then show ?thesis
    unfolding np_quicksort_def argsort_stable_def
    by (subst aquicksort_range.simps, subst ins_loop.simps) simp
next
  case False
  then have pos: "0 < length ks" by simp
  have "ins_loop ks 0 (length ks - 1) [0..<length ks] 1 = stable_upto ks (length ks)"
  proof (rule ins_loop_correct[OF assms(2) refl pos])
    show "1 \<le> length ks" using pos by linarith
    show "[0..<length ks] = stable_upto ks 1 @ [1..<length ks]"
      using pos by (simp add: upt_conv_Cons)
  qed
  moreover have "\<not> 16 < length ks - 1 - 0" using assms(1) by linarith
  ultimately show ?thesis
    unfolding np_quicksort_def argsort_stable_def
    by (subst aquicksort_range.simps) simp
qed

lemma np_quicksort_stable_small:
  assumes "n \<le> 17"
  shows "argsort_stable_spec n np_quicksort"
  unfolding argsort_stable_spec_def
proof (intro allI impI)
  fix ks :: series
  assume b: "length ks \<le> n \<and> (\<forall>k \<in> set ks. \<not> is_nan k)"
  with assms have "np_quicksort ks = argsort_stable ks"
    by (intro np_quicksort_small) auto
  with b argsort_stable_is_stable[of n]
  show "mset (np_quicksort ks) = mset [0..<length ks] \<and>
        sorted_wrt (\<lambda>i j. fl_less (ks ! i) (ks ! j) \<or> (ks ! i = ks ! j \<and> i < j))
          (np_quicksort ks)"
    unfolding argsort_stable_spec_def by simp
qed

lemma np_quicksort_sorts_small: "n \<le> 17 \<Longrightarrow> argsort_spec n np_quicksort"
  by (rule argsort_stable_spec_imp_spec[OF np_quicksort_stable_small])

lemma store_ab_sorts:
  "argsort_spec (length (index (frames store_ab ! 0))) np_quicksort"
  "argsort_stable_spec (length (index (frames store_ab ! 0))) np_quicksort"
  by (rule np_quicksort_sorts_small np_quicksort_stable_small,
      simp add: store_ab_def table_ab_def)+

lemma store_heavy_sorts:
  "argsort_spec (length (index (frames store_heavy ! 0))) np_quicksort"
  by (rule np_quicksort_sorts_small) (simp add: store_heavy_def table_ab_def)

lemma store_empty_sorts:
  "argsort_spec (length (index (frames store_empty ! 0))) np_quicksort"
  by (rule np_quicksort_sorts_small) (simp add: store_empty_def table_empty_def)

lemma sorted_wrt_all: "(\<And>x y. x \<in> set xs \<Longrightarrow> y \<in> set xs \<Longrightarrow> Q x y) \<Longrightarrow> sorted_wrt Q xs"
  by (induction xs) auto


lemma nargsort_desc_sorted:
  assumes "argsort_spec (length items) kind"
  shows "sorted_wrt (\<lambda>i j. fl_ge (items ! i) (items ! j) \<or> is_nan (items ! j))
           (nargsort kind items False)"
proof -
  let ?nn = "filter (\<lambda>x. \<not> is_nan x) items"
  let ?ni = "filter (\<lambda>i. \<not> is_nan (items ! i)) [0..<length items]"
  let ?na = "filter (\<lambda>i. is_nan (items ! i)) [0..<length items]"
  let ?Q = "\<lambda>i j. fl_ge (items ! i) (items ! j) \<or> is_nan (items ! j)"
  define rk where "rk = rev ?nn"
  define ri where "ri = rev ?ni"
  define p where "p = kind rk"
  have rk_ri: "rk = map (\<lambda>i. items ! i) ri"
    unfolding rk_def ri_def by (subst non_nans_map) (simp add: rev_map)
  have nn: "length rk \<le> length items \<and> (\<forall>k \<in> set rk. \<not> is_nan k)" by (simp add: rk_def)
  from assms nn have pm: "mset p = mset [0..<length rk]"
    and ps: "sorted_wrt (\<lambda>i j. fl_le (rk ! i) (rk ! j)) p"
    unfolding argsort_spec_def p_def by blast+
  have "set p = set [0..<length rk]" using pm by (rule mset_eq_setD)
  then have pset: "set p = {0..<length ri}" by (simp add: rk_ri)
  have key: "rk ! j = items ! (ri ! j)" if "j \<in> set p" for j
    using that pset by (simp add: rk_ri)
  have "sorted_wrt (\<lambda>a b. fl_le (items ! (ri ! a)) (items ! (ri ! b))) p"
    by (rule sorted_wrt_mono_rel[OF _ ps]) (simp add: key)
  then have s1: "sorted_wrt (\<lambda>a b. fl_le (items ! a) (items ! b)) (map (\<lambda>j. ri ! j) p)"
    by (simp add: sorted_wrt_map)
  then have s2: "sorted_wrt (\<lambda>a b. fl_ge (items ! a) (items ! b)) (rev (map (\<lambda>j. ri ! j) p))"
    by (simp add: sorted_wrt_rev fl_ge_def)
  have s3: "sorted_wrt ?Q (rev (map (\<lambda>j. ri ! j) p))"
    by (rule sorted_wrt_mono_rel[OF _ s2]) simp
  have s4: "sorted_wrt ?Q ?na"
    by (rule sorted_wrt_all) simp
  have eq: "nargsort kind items False = rev (map (\<lambda>j. ri ! j) p) @ ?na"
    by (simp add: nargsort_def Let_def p_def rk_def ri_def)
  show ?thesis
    unfolding eq sorted_wrt_append using s3 s4 by simp
qed


lemma final_store_simps:
  "take (length (frames st)) (frames (final_store kind top_n st d s1 s2 s3 s4 s5)) = frames st"
  "df < length (frames st) \<Longrightarrow> frames (final_store kind top_n st d s1 s2 s3 s4 s5) ! df = frames st ! df"
  "selector (final_store kind top_n st d s1 s2 s3 s4 s5) = selector st"
  "length (frames (final_store kind top_n st d s1 s2 s3 s4 s5)) = length (frames st) + 4"
  "frames (final_store kind top_n st d s1 s2 s3 s4 s5) ! (length (frames st) + 3) =
     head (sorted_frame kind (weights (selector st)) d s1 s2 s3 s4 s5) top_n"
  by (simp_all add: final_store_def nth_append)

lemma select_stocks_entity:
  assumes "df < length (frames st)" and "entity_table (frames st ! df)"
  obtains s1 s2 s3 s4 s5 where
    "calculate_distribution_yield_score (frames st ! df) = Inr s1"
    "calculate_nav_ratio_score (frames st ! df) = Inr s2"
    "calculate_portfolio_quality_score (frames st ! df) = Inr s3"
    "calculate_financial_health_score (frames st ! df) = Inr s4"
    "calculate_market_position_score (frames st ! df) = Inr s5"
    "length s1 = length (index (frames st ! df))"
    "length s2 = length (index (frames st ! df))"
    "length s3 = length (index (frames st ! df))"
    "length s4 = length (index (frames st ! df))"
    "length s5 = length (index (frames st ! df))"
    "select_stocks kind df top_n st =
       Inr (length (frames st) + 3, final_store kind top_n st (frames st ! df) s1 s2 s3 s4 s5)"
proof -
  from calculate_distribution_yield_score_entity[OF assms(2)] obtain s1 where
    s1: "calculate_distribution_yield_score (frames st ! df) = Inr s1"
        "length s1 = length (index (frames st ! df))" by blast
  from calculate_nav_ratio_score_entity[OF assms(2)] obtain s2 where
    s2: "calculate_nav_ratio_score (frames st ! df) = Inr s2"
        "length s2 = length (index (frames st ! df))" by blast
  from calculate_portfolio_quality_score_entity[OF assms(2)] obtain s3 where
    s3: "calculate_portfolio_quality_score (frames st ! df) = Inr s3"
        "length s3 = length (index (frames st ! df))" by blast
  from calculate_financial_health_score_entity[OF assms(2)] obtain s4 where
    s4: "calculate_financial_health_score (frames st ! df) = Inr s4"
        "length s4 = length (index (frames st ! df))" by blast
  from calculate_market_position_score_entity[OF assms(2)] obtain s5 where
    s5: "calculate_market_position_score (frames st ! df) = Inr s5"
        "length s5 = length (index (frames st ! df))" by blast
  have main: "select_stocks kind df top_n st =
       Inr (length (frames st) + 3, final_store kind top_n st (frames st ! df) s1 s2 s3 s4 s5)"
    using select_stocks_char[OF assms(1) s1(1) s2(1) s3(1) s4(1) s5(1), of kind top_n]
    by (simp only: Let_def final_store_def sorted_frame_def)
  show thesis
    by (rule that[OF s1(1) s2(1) s3(1) s4(1) s5(1) s1(2) s2(2) s3(2) s4(2) s5(2) main])
qed

lemma store_ab_ok:
  "0 < length (frames store_ab)" "entity_table (frames store_ab ! 0)"
  by (simp_all add: store_ab_def table_ab_def entity_table_def required_columns_def)

lemma out_frame_facts:
  assumes "argsort_spec n kind"
    and "length s1 = n" "length s2 = n" "length s3 = n" "length s4 = n" "length s5 = n"
    and "length (index d) = n"
  shows "length (nargsort kind (composite w s1 s2 s3 s4 s5) False) = n"
    and "set (nargsort kind (composite w s1 s2 s3 s4 s5) False) = {0..<n}"
    and "length (index (head (sorted_frame kind w d s1 s2 s3 s4 s5) top_n)) =
           min (head_count n top_n) n"
proof -
  have lc: "length (composite w s1 s2 s3 s4 s5) = n"
    using assms(2-6) by (rule length_composite)
  have sp: "argsort_spec (length (composite w s1 s2 s3 s4 s5)) kind"
    using assms(1) lc by simp
  show l: "length (nargsort kind (composite w s1 s2 s3 s4 s5) False) = n"
    using nargsort_desc_length[OF sp] lc by simp
  show "set (nargsort kind (composite w s1 s2 s3 s4 s5) False) = {0..<n}"
    using nargsort_desc_set[OF sp] lc by simp
  show "length (index (head (sorted_frame kind w d s1 s2 s3 s4 s5) top_n)) =
           min (head_count n top_n) n"
    by (simp add: index_head sorted_frame_def index_take_rows l min.commute)
qed

lemma store_empty_ok:
  "0 < length (frames store_empty)" "entity_table (frames store_empty ! 0)"
  "index (frames store_empty ! 0) = []"
  by (simp_all add: store_empty_def table_empty_def entity_table_def required_columns_def)

lemma getitem_table_ab_yield:
  "getitem table_ab DistributionYield = Inr [Fin (5 / 100), Fin (3 / 100)]"
  by (simp add: getitem_def table_ab_def)

text \<open>What \<open>min\<close> and \<open>max\<close> return on a column of finite numbers.\<close>

lemma fold_fl_min_finite:
  assumes "list_all is_finite (x # xs)"
  shows "fold fl_min xs x \<in> set (x # xs) \<and> (\<forall>y \<in> set (x # xs). fl_le (fold fl_min xs x) y)"
  using assms
proof (induction xs arbitrary: x)
  case Nil
  then show ?case by (cases x) (auto simp: fl_le_def fl_eq_def)
next
  case (Cons a xs)
  let ?m = "fl_min a x"
  have m: "?m = a \<or> ?m = x" by (simp add: fl_min_def)
  have fin: "is_finite a" "is_finite x" using Cons.prems by auto
  have le: "fl_le ?m a" "fl_le ?m x"
    using fin by (cases a; cases x; auto simp: fl_min_def fl_le_def fl_eq_def)+
  have "list_all is_finite (?m # xs)" using Cons.prems m by auto
  from Cons.IH[OF this]
  have ih: "fold fl_min xs ?m \<in> set (?m # xs)" "\<forall>y \<in> set (?m # xs). fl_le (fold fl_min xs ?m) y"
    by auto
  from ih(2) have lem: "fl_le (fold fl_min xs ?m) ?m" by simp
  have "fl_le (fold fl_min xs ?m) a" "fl_le (fold fl_min xs ?m) x"
    using lem le fl_le_trans by blast+
  with ih m show ?case by auto
qed

lemma fold_fl_max_finite:
  assumes "list_all is_finite (x # xs)"
  shows "fold fl_max xs x \<in> set (x # xs) \<and> (\<forall>y \<in> set (x # xs). fl_le y (fold fl_max xs x))"
  using assms
proof (induction xs arbitrary: x)
  case Nil
  then show ?case by (cases x) (auto simp: fl_le_def fl_eq_def)
next
  case (Cons a xs)
  let ?m = "fl_max a x"
  have m: "?m = a \<or> ?m = x" by (simp add: fl_max_def)
  have fin: "is_finite a" "is_finite x" using Cons.prems by auto
  have le: "fl_le a ?m" "fl_le x ?m"
    using fin by (cases a; cases x; auto simp: fl_max_def fl_le_def fl_eq_def)+
  have "list_all is_finite (?m # xs)" using Cons.prems m by auto
  from Cons.IH[OF this]
  have ih: "fold fl_max xs ?m \<in> set (?m # xs)" "\<forall>y \<in> set (?m # xs). fl_le y (fold fl_max xs ?m)"
    by auto
  from ih(2) have lem: "fl_le ?m (fold fl_max xs ?m)" by simp
  have "fl_le a (fold fl_max xs ?m)" "fl_le x (fold fl_max xs ?m)"
    using lem le fl_le_trans by blast+
  with ih m show ?case by auto
qed

lemma filter_finite: "list_all is_finite s \<Longrightarrow> filter (\<lambda>x. \<not> is_nan x) s = s"
proof (induction s)
  case Nil
  then show ?case by simp
next
  case (Cons a s)
  then show ?case by (cases a) auto
qed

lemma series_min_finite:
  assumes "list_all is_finite s" and "s \<noteq> []"
  shows "series_min s \<in> set s \<and> (\<forall>y \<in> set s. fl_le (series_min s) y)"
proof -
  from assms(2) obtain x xs where s: "s = x # xs" by (cases s) auto
  with assms(1) fold_fl_min_finite[of x xs] filter_finite[OF assms(1)]
  show ?thesis by (simp add: series_min_def)
qed

lemma series_max_finite:
  assumes "list_all is_finite s" and "s \<noteq> []"
  shows "series_max s \<in> set s \<and> (\<forall>y \<in> set s. fl_le y (series_max s))"
proof -
  from assms(2) obtain x xs where s: "s = x # xs" by (cases s) auto
  with assms(1) fold_fl_max_finite[of x xs] filter_finite[OF assms(1)]
  show ?thesis by (simp add: series_max_def)
qed

lemma finite_bounds:
  assumes "list_all is_finite s" and "s \<noteq> []"
  obtains lo hi where "series_min s = Fin lo" "series_max s = Fin hi"
    "Fin lo \<in> set s" "Fin hi \<in> set s"
    "\<And>v. Fin v \<in> set s \<Longrightarrow> lo \<le> v \<and> v \<le> hi"
proof -
  from series_min_finite[OF assms] have mn: "series_min s \<in> set s"
    "\<forall>y \<in> set s. fl_le (series_min s) y" by auto
  from series_max_finite[OF assms] have mx: "series_max s \<in> set s"
    "\<forall>y \<in> set s. fl_le y (series_max s)" by auto
  from mn(1) assms(1) have "is_finite (series_min s)" by (auto simp: list_all_iff)
  then obtain lo where lo: "series_min s = Fin lo" by (cases "series_min s") auto
  from mx(1) assms(1) have "is_finite (series_max s)" by (auto simp: list_all_iff)
  then obtain hi where hi: "series_max s = Fin hi" by (cases "series_max s") auto
  have b: "lo \<le> v \<and> v \<le> hi" if "Fin v \<in> set s" for v
    using mn(2) mx(2) that lo hi by (fastforce simp: fl_le_def fl_eq_def)
  have "Fin lo \<in> set s" "Fin hi \<in> set s" using mn(1) mx(1) lo hi by auto
  then show thesis using b by (rule that[OF lo hi])
qed

lemma norm_series_nth:
  "i < length s \<Longrightarrow>
   norm_series s ! i = fl_div (fl_sub (s ! i) (series_min s)) (fl_sub (series_max s) (series_min s))"
  by (simp add: norm_series_def series_div_scalar_def series_sub_scalar_def)

lemma nav_score_low:
  "entity_table table_low_nav"
  "calculate_nav_ratio_score table_low_nav = Inr [Fin (- 7 / 2), Fin (- 3)]"
  by (simp_all add: table_low_nav_def entity_table_def required_columns_def
      calculate_nav_ratio_score_def getitem_def bind_err_def scalar_sub_series_def
      series_div_scalar_def series_abs_def series_sub_scalar_def series_max_def fl_max_def
      fl_sub_def)

lemma nav_score_negative:
  "entity_table table_negative_nav"
  "calculate_nav_ratio_score table_negative_nav = Inr [Fin 3, Fin 4]"
  by (simp_all add: table_negative_nav_def entity_table_def required_columns_def
      calculate_nav_ratio_score_def getitem_def bind_err_def scalar_sub_series_def
      series_div_scalar_def series_abs_def series_sub_scalar_def series_max_def fl_max_def
      fl_sub_def)

text \<open>
  The score can exceed 1 only when the maximum of the column is negative: on a column
  of positive finite NAV ratios no row scores above 1.
\<close>

lemma nav_ratio_score_le_one:
  assumes "getitem df NavRatio = Inr s" and "list_all is_finite s"
    and "\<forall>v. Fin v \<in> set s \<longrightarrow> 0 < v"
    and "calculate_nav_ratio_score df = Inr r" and "i < length s"
  shows "fl_le (r ! i) (Fin 1)"
proof -
  from assms(5) have ne: "s \<noteq> []" by auto
  from finite_bounds[OF assms(2) ne] obtain lo hi where
    hi: "series_max s = Fin hi" and mem: "Fin hi \<in> set s" by blast
  with assms(3) have pos: "0 < hi" by blast
  from assms(5) have m: "s ! i \<in> set s" by simp
  with assms(2) have "is_finite (s ! i)" by (auto simp: list_all_iff)
  then obtain v where v: "s ! i = Fin v" by (cases "s ! i") auto
  from assms(1,4) have "r = scalar_sub_series (Fin 1)
             (series_div_scalar (series_abs (series_sub_scalar s (Fin 1))) (series_max s))"
    by (simp add: calculate_nav_ratio_score_def bind_err_def)
  then have "r ! i = Fin (1 - \<bar>v - 1\<bar> / hi)"
    using assms(5) v hi pos
    by (simp add: scalar_sub_series_def series_div_scalar_def series_abs_def
        series_sub_scalar_def fl_sub_def)
  moreover have "1 - \<bar>v - 1\<bar> / hi \<le> 1" using pos by simp
  ultimately show ?thesis by (auto simp: fl_le_def fl_eq_def)
qed

lemma out_frame_column:
  assumes "argsort_spec n kind"
    and "length s1 = n" "length s2 = n" "length s3 = n" "length s4 = n" "length s5 = n"
    and "length (index d) = n"
    and "getitem (result_frame d (composite w s1 s2 s3 s4 s5) s1 s2 s3 s4 s5) c = Inr s"
  shows "getitem (head (sorted_frame kind w d s1 s2 s3 s4 s5) top_n) c =
           Inr (take (head_count n top_n)
                  (map (\<lambda>i. s ! i) (nargsort kind (composite w s1 s2 s3 s4 s5) False)))"
  using assms(8) out_frame_facts(1)[OF assms(1-7), of w]
  by (simp add: getitem_head getitem_take_rows sorted_frame_def index_take_rows)

lemma store_heavy_ok:
  "0 < length (frames store_heavy)" "entity_table (frames store_heavy ! 0)"
  by (simp_all add: store_heavy_def table_ab_def entity_table_def required_columns_def)

lemmas series_eval =
  normalize_column_def getitem_def bind_err_def scalar_sub_series_def series_div_scalar_def
  series_abs_def series_sub_scalar_def series_add_def series_mul_scalar_def
  series_max_def series_min_def fl_max_def fl_min_def fl_sub_def

lemma table_same_scores:
  "calculate_distribution_yield_score table_same = Inr [NaN, NaN]"
  "calculate_nav_ratio_score table_same = Inr [Fin 1, Fin 1]"
  "calculate_portfolio_quality_score table_same = Inr [NaN, NaN]"
  "calculate_financial_health_score table_same = Inr [NaN, NaN]"
  "calculate_market_position_score table_same = Inr [NaN, NaN]"
  by (simp_all add: table_same_def calculate_distribution_yield_score_def
      calculate_nav_ratio_score_def calculate_portfolio_quality_score_def
      calculate_financial_health_score_def calculate_market_position_score_def series_eval)

lemma table_same_composite:
  "composite default_weights [NaN, NaN] [Fin 1, Fin 1] [NaN, NaN] [NaN, NaN] [NaN, NaN] = [NaN, NaN]"
  by (simp add: composite_def default_weights_def series_add_def series_mul_scalar_def)

lemma nargsort_all_nan: "nargsort np_quicksort [NaN, NaN] False = [0, 1]"
  by code_simp

lemma select_stocks_same:
  "returned_column (select_stocks np_quicksort 0 2 store_same) TotalScore = Inr [NaN, NaN]"
proof -
  have d: "frames store_same ! 0 = table_same" "0 < length (frames store_same)"
    "weights (selector store_same) = default_weights"
    by (simp_all add: store_same_def)
  note s = table_same_scores[folded d(1)]
  show ?thesis
    unfolding select_stocks_char[OF d(2) s, of np_quicksort 2] Let_def d(3) table_same_composite
      nargsort_all_nan returned_column_def bind_err_Inr prod.case
    by (simp add: load_def nth_append getitem_head getitem_take_rows getitem_result_frame
        head_count_def index_take_rows)
qed









section \<open>The claims\<close>

text \<open>
  C1. For every entity table and every weights, the composite score that the returned
  frame holds in a row is the weighted sum of the five sub-scores held in that same
  row, with the weights as the caller gave them: distribution yield, NAV ratio,
  portfolio quality, financial health and market position, multiplied and added in
  that order. The weights are not rescaled, whatever they sum to. The argsort behind
  \<open>sort_values\<close> is any routine that sorts as many keys as the table has rows.
\<close>

theorem select_stocks_composite_is_weighted_sum:
  assumes "argsort_spec (length (index (frames st ! df))) kind" and "df < length (frames st)"
    and "entity_table (frames st ! df)"
  shows "\<exists>out st' t c1 c2 c3 c4 c5.
           select_stocks kind df top_n st = Inr (out, st') \<and>
           getitem (frames st' ! out) TotalScore = Inr t \<and>
           getitem (frames st' ! out) DistributionYieldScore = Inr c1 \<and>
           getitem (frames st' ! out) NavRatioScore = Inr c2 \<and>
           getitem (frames st' ! out) PortfolioQualityScore = Inr c3 \<and>
           getitem (frames st' ! out) FinancialHealthScore = Inr c4 \<and>
           getitem (frames st' ! out) MarketPositionScore = Inr c5 \<and>
           length t = length (index (frames st' ! out)) \<and>
           (\<forall>i < length t. t ! i =
              fl_add (fl_add (fl_add (fl_add
                (fl_mul (c1 ! i) (distribution_yield (weights (selector st))))
                (fl_mul (c2 ! i) (nav_ratio (weights (selector st)))))
                (fl_mul (c3 ! i) (portfolio_quality (weights (selector st)))))
                (fl_mul (c4 ! i) (financial_health (weights (selector st)))))
                (fl_mul (c5 ! i) (market_position (weights (selector st)))))"
proof -
  let ?n = "length (index (frames st ! df))"
  let ?d = "frames st ! df"
  let ?w = "weights (selector st)"
  from select_stocks_entity[OF assms(2,3), of kind top_n] obtain s1 s2 s3 s4 s5 where
    l: "length s1 = ?n" "length s2 = ?n" "length s3 = ?n" "length s4 = ?n" "length s5 = ?n"
    and r: "select_stocks kind df top_n st =
       Inr (length (frames st) + 3, final_store kind top_n st ?d s1 s2 s3 s4 s5)"
    by metis
  let ?tot = "composite ?w s1 s2 s3 s4 s5"
  let ?ix = "nargsort kind ?tot False"
  let ?m = "head_count ?n top_n"
  let ?out = "head (sorted_frame kind ?w ?d s1 s2 s3 s4 s5) top_n"
  note col = out_frame_column[OF assms(1) l refl, of ?w _ _ top_n]
  have g: "getitem ?out TotalScore = Inr (take ?m (map (\<lambda>i. ?tot ! i) ?ix))"
    "getitem ?out DistributionYieldScore = Inr (take ?m (map (\<lambda>i. s1 ! i) ?ix))"
    "getitem ?out NavRatioScore = Inr (take ?m (map (\<lambda>i. s2 ! i) ?ix))"
    "getitem ?out PortfolioQualityScore = Inr (take ?m (map (\<lambda>i. s3 ! i) ?ix))"
    "getitem ?out FinancialHealthScore = Inr (take ?m (map (\<lambda>i. s4 ! i) ?ix))"
    "getitem ?out MarketPositionScore = Inr (take ?m (map (\<lambda>i. s5 ! i) ?ix))"
    by (rule col, rule getitem_result_frame)+
  have lix: "length ?ix = ?n" and six: "set ?ix = {0..<?n}"
    by (rule out_frame_facts[OF assms(1) l refl])+
  have len: "length (take ?m (map (\<lambda>i. ?tot ! i) ?ix)) = length (index ?out)"
    using out_frame_facts(3)[OF assms(1) l refl, of ?w top_n] lix by simp
  have row: "take ?m (map (\<lambda>i. ?tot ! i) ?ix) ! i =
              fl_add (fl_add (fl_add (fl_add
                (fl_mul (take ?m (map (\<lambda>i. s1 ! i) ?ix) ! i) (distribution_yield ?w))
                (fl_mul (take ?m (map (\<lambda>i. s2 ! i) ?ix) ! i) (nav_ratio ?w)))
                (fl_mul (take ?m (map (\<lambda>i. s3 ! i) ?ix) ! i) (portfolio_quality ?w)))
                (fl_mul (take ?m (map (\<lambda>i. s4 ! i) ?ix) ! i) (financial_health ?w)))
                (fl_mul (take ?m (map (\<lambda>i. s5 ! i) ?ix) ! i) (market_position ?w))"
    if "i < length (take ?m (map (\<lambda>i. ?tot ! i) ?ix))" for i
  proof -
    from that have i: "i < ?m" "i < length ?ix" by simp_all
    then have "?ix ! i \<in> set ?ix" by simp
    with six have "?ix ! i < ?n" by simp
    from composite_nth[OF l this, of ?w] i show ?thesis by simp
  qed
  show ?thesis
    using r g len row by (simp add: final_store_simps)
qed

theorem select_stocks_composite_is_weighted_sum_witness:
  "argsort_spec (length (index (frames store_heavy ! 0))) np_quicksort \<and>
   0 < length (frames store_heavy) \<and>
   entity_table (frames store_heavy ! 0) \<and>
   (\<exists>out st' t c1 c2 c3 c4 c5.
      select_stocks np_quicksort 0 2 store_heavy = Inr (out, st') \<and>
      getitem (frames st' ! out) TotalScore = Inr t \<and>
      getitem (frames st' ! out) DistributionYieldScore = Inr c1 \<and>
      getitem (frames st' ! out) NavRatioScore = Inr c2 \<and>
      getitem (frames st' ! out) PortfolioQualityScore = Inr c3 \<and>
      getitem (frames st' ! out) FinancialHealthScore = Inr c4 \<and>
      getitem (frames st' ! out) MarketPositionScore = Inr c5 \<and>
      length t = length (index (frames st' ! out)) \<and>
      (\<forall>i < length t. t ! i =
         fl_add (fl_add (fl_add (fl_add
           (fl_mul (c1 ! i) (Fin (4 / 10)))
           (fl_mul (c2 ! i) (Fin (4 / 10))))
           (fl_mul (c3 ! i) (Fin (4 / 10))))
           (fl_mul (c4 ! i) (Fin (4 / 10))))
           (fl_mul (c5 ! i) (Fin (4 / 10)))))"
proof -
  have w: "distribution_yield (weights (selector store_heavy)) = Fin (4 / 10)"
    "nav_ratio (weights (selector store_heavy)) = Fin (4 / 10)"
    "portfolio_quality (weights (selector store_heavy)) = Fin (4 / 10)"
    "financial_health (weights (selector store_heavy)) = Fin (4 / 10)"
    "market_position (weights (selector store_heavy)) = Fin (4 / 10)"
    by (simp_all add: store_heavy_def)
  show ?thesis
    using store_heavy_sorts store_heavy_ok
      select_stocks_composite_is_weighted_sum[OF store_heavy_sorts store_heavy_ok, of 2]
    unfolding w by (intro conjI)
qed



text \<open>
  C3. For every table the NAV-ratio score of a row is exactly
  \<open>1 - |nav_ratio - 1| / max nav_ratio\<close>, the maximum taken over the whole column, and
  nothing clamps it to \<open>[0, 1]\<close>: there is an entity table on which a row scores above 1
  and one on which a row scores below 0.
\<close>

theorem nav_ratio_score_formula:
  "(\<forall>s. getitem df NavRatio = Inr s \<longrightarrow>
      (\<exists>r. calculate_nav_ratio_score df = Inr r \<and> length r = length s \<and>
         (\<forall>i < length s. r ! i =
            fl_sub (Fin 1) (fl_div (fl_abs (fl_sub (s ! i) (Fin 1))) (series_max s))))) \<and>
   (\<exists>d r i. entity_table d \<and> calculate_nav_ratio_score d = Inr r \<and> i < length r \<and>
      fl_less (Fin 1) (r ! i)) \<and>
   (\<exists>d r i. entity_table d \<and> calculate_nav_ratio_score d = Inr r \<and> i < length r \<and>
      fl_less (r ! i) (Fin 0))"
proof (intro conjI)
  show "\<forall>s. getitem df NavRatio = Inr s \<longrightarrow>
      (\<exists>r. calculate_nav_ratio_score df = Inr r \<and> length r = length s \<and>
         (\<forall>i < length s. r ! i =
            fl_sub (Fin 1) (fl_div (fl_abs (fl_sub (s ! i) (Fin 1))) (series_max s))))"
    by (simp add: calculate_nav_ratio_score_def bind_err_def scalar_sub_series_def
        series_div_scalar_def series_abs_def series_sub_scalar_def)
  have "(0::nat) < length [Fin 3, Fin 4] \<and> fl_less (Fin 1) ([Fin 3, Fin 4] ! 0)" by simp
  with nav_score_negative
  show "\<exists>d r i. entity_table d \<and> calculate_nav_ratio_score d = Inr r \<and> i < length r \<and>
      fl_less (Fin 1) (r ! i)" by blast
  have "(0::nat) < length [Fin (- 7 / 2), Fin (- 3)] \<and>
        fl_less ([Fin (- 7 / 2), Fin (- 3)] ! 0) (Fin 0)" by simp
  with nav_score_low
  show "\<exists>d r i. entity_table d \<and> calculate_nav_ratio_score d = Inr r \<and> i < length r \<and>
      fl_less (r ! i) (Fin 0)" by blast
qed

theorem nav_ratio_score_formula_witness:
  "getitem table_ab NavRatio = Inr [Fin 1, Fin (12 / 10)] \<and>
   calculate_nav_ratio_score table_ab = Inr [Fin 1, Fin (5 / 6)]"
proof -
  have g: "getitem table_ab NavRatio = Inr [Fin 1, Fin (12 / 10)]"
    by (simp add: getitem_def table_ab_def)
  from nav_ratio_score_formula[of table_ab] g obtain r where
    r: "calculate_nav_ratio_score table_ab = Inr r"
       "length r = length [Fin 1, Fin (12 / 10)]"
       "\<forall>i < length [Fin 1, Fin (12 / 10)]. r ! i =
          fl_sub (Fin 1) (fl_div (fl_abs (fl_sub ([Fin 1, Fin (12 / 10)] ! i) (Fin 1)))
            (series_max [Fin 1, Fin (12 / 10)]))"
    by blast
  from r(3) have "r ! 0 = Fin 1" "r ! 1 = Fin (5 / 6)"
    by (simp_all add: series_max_def fl_max_def fl_sub_def)
  with r(2) have "r = [Fin 1, Fin (5 / 6)]"
    by (cases r; cases "tl r"; cases "tl (tl r)") auto
  with g r(1) show ?thesis by simp
qed




text \<open>
  C5. For every entity table and every \<open>top_n \<ge> 1\<close>, \<open>select_stocks\<close> returns (it
  raises nothing) and the frame it returns has \<open>min top_n row_count\<close> rows; when
  \<open>top_n\<close> exceeds the row count these are all the rows. The argsort behind
  \<open>sort_values\<close> is any routine that sorts as many keys as the table has rows.
\<close>

theorem select_stocks_row_count:
  assumes "argsort_spec (length (index (frames st ! df))) kind" and "df < length (frames st)"
    and "entity_table (frames st ! df)" and "1 \<le> top_n"
  shows "\<exists>out st'. select_stocks kind df top_n st = Inr (out, st') \<and>
           length (index (frames st' ! out)) =
             min (nat top_n) (length (index (frames st ! df)))"
proof -
  from select_stocks_entity[OF assms(2,3), of kind top_n] obtain s1 s2 s3 s4 s5 where
    l: "length s1 = length (index (frames st ! df))" "length s2 = length (index (frames st ! df))"
       "length s3 = length (index (frames st ! df))" "length s4 = length (index (frames st ! df))"
       "length s5 = length (index (frames st ! df))"
    and r: "select_stocks kind df top_n st =
       Inr (length (frames st) + 3, final_store kind top_n st (frames st ! df) s1 s2 s3 s4 s5)"
    by metis
  have "length (index (head (sorted_frame kind (weights (selector st)) (frames st ! df)
            s1 s2 s3 s4 s5) top_n)) =
        min (head_count (length (index (frames st ! df))) top_n) (length (index (frames st ! df)))"
    by (rule out_frame_facts(3)[OF assms(1) l refl])
  with assms(4) r show ?thesis by (simp add: final_store_simps head_count_def)
qed

theorem select_stocks_row_count_witness:
  "argsort_spec (length (index (frames store_ab ! 0))) np_quicksort \<and>
   0 < length (frames store_ab) \<and>
   entity_table (frames store_ab ! 0) \<and> (1::int) \<le> 5 \<and>
   (\<exists>out st'. select_stocks np_quicksort 0 5 store_ab = Inr (out, st') \<and>
      length (index (frames st' ! out)) = min (nat 5) (length (index (frames store_ab ! 0))))"
proof -
  have h: "(1::int) \<le> 5" by simp
  show ?thesis
    using store_ab_sorts(1) store_ab_ok h
      select_stocks_row_count[OF store_ab_sorts(1) store_ab_ok h]
    by (intro conjI)
qed

text \<open>
  C6, as the claim states it, fails when a normalized column is degenerate: the
  composite score of every row is then NaN, and \<open>NaN \<ge> NaN\<close> is false. On two rows
  that agree in every column the returned frame holds two NaN totals (the argsort is
  called on no key at all, so its kind plays no part).
\<close>

theorem select_stocks_nan_pair_not_descending:
  "returned_column (select_stocks np_quicksort 0 2 store_same) TotalScore = Inr [NaN, NaN] \<and>
   \<not> fl_ge ([NaN, NaN] ! 0) ([NaN, NaN] ! 1)"
  using select_stocks_same by (simp add: fl_ge_def fl_le_def fl_eq_def)

text \<open>
  C6, amended. The returned frame is in descending order of composite score, with the
  rows whose composite score is NaN placed last: for every adjacent pair of rows,
  the score of the first is greater than or equal to the score of the second, or the
  score of the second is NaN. The argsort behind \<open>sort_values\<close> is any routine that
  sorts as many keys as the table has rows.
\<close>

theorem select_stocks_sorted_descending:
  assumes "argsort_spec (length (index (frames st ! df))) kind" and "df < length (frames st)"
    and "entity_table (frames st ! df)"
  shows "\<exists>out st' t. select_stocks kind df top_n st = Inr (out, st') \<and>
           getitem (frames st' ! out) TotalScore = Inr t \<and>
           length t = length (index (frames st' ! out)) \<and>
           (\<forall>i. i + 1 < length t \<longrightarrow> fl_ge (t ! i) (t ! (i + 1)) \<or> is_nan (t ! (i + 1)))"
proof -
  let ?n = "length (index (frames st ! df))"
  let ?d = "frames st ! df"
  let ?w = "weights (selector st)"
  from select_stocks_entity[OF assms(2,3), of kind top_n] obtain s1 s2 s3 s4 s5 where
    l: "length s1 = ?n" "length s2 = ?n" "length s3 = ?n" "length s4 = ?n" "length s5 = ?n"
    and r: "select_stocks kind df top_n st =
       Inr (length (frames st) + 3, final_store kind top_n st ?d s1 s2 s3 s4 s5)"
    by metis
  let ?tot = "composite ?w s1 s2 s3 s4 s5"
  let ?ix = "nargsort kind ?tot False"
  let ?m = "head_count ?n top_n"
  let ?out = "head (sorted_frame kind ?w ?d s1 s2 s3 s4 s5) top_n"
  let ?t = "take ?m (map (\<lambda>i. ?tot ! i) ?ix)"
  have g: "getitem ?out TotalScore = Inr ?t"
    by (rule out_frame_column[OF assms(1) l refl], rule getitem_result_frame)
  have lix: "length ?ix = ?n"
    by (rule out_frame_facts[OF assms(1) l refl])
  have len: "length ?t = length (index ?out)"
    using out_frame_facts(3)[OF assms(1) l refl, of ?w top_n] lix by simp
  have sp: "argsort_spec (length ?tot) kind"
    using assms(1) length_composite[OF l, of ?w] by simp
  have "sorted_wrt (\<lambda>i j. fl_ge (?tot ! i) (?tot ! j) \<or> is_nan (?tot ! j)) ?ix"
    by (rule nargsort_desc_sorted[OF sp])
  then have "sorted_wrt (\<lambda>a b. fl_ge a b \<or> is_nan b) (map (\<lambda>i. ?tot ! i) ?ix)"
    by (simp add: sorted_wrt_map)
  then have srt: "sorted_wrt (\<lambda>a b. fl_ge a b \<or> is_nan b) ?t"
    by (rule sorted_wrt_take)
  have adj: "fl_ge (?t ! i) (?t ! (i + 1)) \<or> is_nan (?t ! (i + 1))" if "i + 1 < length ?t" for i
    using sorted_wrt_nth_less[OF srt, of i "i + 1"] that by simp
  show ?thesis
    using r g len adj by (simp add: final_store_simps)
qed

theorem select_stocks_sorted_descending_witness:
  "argsort_spec (length (index (frames store_ab ! 0))) np_quicksort \<and>
   0 < length (frames store_ab) \<and>
   entity_table (frames store_ab ! 0) \<and>
   (\<exists>out st' t. select_stocks np_quicksort 0 2 store_ab = Inr (out, st') \<and>
      getitem (frames st' ! out) TotalScore = Inr t \<and>
      length t = length (index (frames st' ! out)) \<and>
      (\<forall>i. i + 1 < length t \<longrightarrow> fl_ge (t ! i) (t ! (i + 1)) \<or> is_nan (t ! (i + 1))))"
  using store_ab_sorts(1) store_ab_ok
    select_stocks_sorted_descending[OF store_ab_sorts(1) store_ab_ok, of 2]
  by (intro conjI)

text \<open>
  C7. When the maximum and the minimum of a column are equal (all rows alike, or a
  single row), \<open>normalize_column\<close> still returns, raising nothing: the divisor
  \<open>max - min\<close> is zero, and every row of the result is a non-finite value. On a column
  of finite numbers every numerator is zero as well, so every row is NaN.
\<close>

theorem normalize_column_degenerate:
  assumes "getitem df column = Inr s" and "fl_eq (series_max s) (series_min s)"
  shows "\<exists>r. normalize_column df column ascending = Inr r \<and> length r = length s \<and>
           (\<forall>i < length s. \<not> is_finite (r ! i)) \<and>
           (list_all is_finite s \<longrightarrow> (\<forall>i < length s. r ! i = NaN))"
proof -
  from assms(1) have r: "normalize_column df column ascending = Inr (norm_series s)"
    by (auto simp: getitem_def normalize_column_Some split: option.splits)
  from assms(2) have eq: "series_max s = series_min s" and nn: "\<not> is_nan (series_min s)"
    by (auto simp: fl_eq_def)
  have d: "fl_sub (series_max s) (series_min s) = Fin 0 \<or> fl_sub (series_max s) (series_min s) = NaN"
    unfolding eq by (cases "series_min s") (auto simp: fl_sub_def)
  have nf: "\<not> is_finite (norm_series s ! i)" if "i < length s" for i
  proof -
    have "\<not> is_finite (fl_div x (Fin 0))" "\<not> is_finite (fl_div x NaN)" for x
      by (cases x; simp)+
    with d that show ?thesis by (auto simp: norm_series_nth)
  qed
  have allnan: "norm_series s ! i = NaN" if fin: "list_all is_finite s" and i: "i < length s" for i
  proof -
    from i have ne: "s \<noteq> []" by auto
    from finite_bounds[OF fin ne] obtain lo hi where
      lo: "series_min s = Fin lo" and hi: "series_max s = Fin hi"
      and b: "\<And>v. Fin v \<in> set s \<Longrightarrow> lo \<le> v \<and> v \<le> hi" by blast
    from eq lo hi have lh: "hi = lo" by simp
    from i have m: "s ! i \<in> set s" by simp
    with fin have "is_finite (s ! i)" by (auto simp: list_all_iff)
    then obtain v where v: "s ! i = Fin v" by (cases "s ! i") auto
    with m b[of v] lh have "v = lo" by auto
    with i v lo hi lh show ?thesis by (simp add: norm_series_nth fl_sub_def)
  qed
  show ?thesis using r nf allnan by (auto simp: length_norm_series)
qed

theorem normalize_column_degenerate_witness:
  "getitem table_single DistributionYield = Inr [Fin (5 / 100)] \<and>
   fl_eq (series_max [Fin (5 / 100)]) (series_min [Fin (5 / 100)]) \<and>
   (\<exists>r. normalize_column table_single DistributionYield True = Inr r \<and>
      length r = length [Fin (5 / 100)] \<and>
      (\<forall>i < length [Fin (5 / 100)]. \<not> is_finite (r ! i)) \<and>
      (list_all is_finite [Fin (5 / 100)] \<longrightarrow> (\<forall>i < length [Fin (5 / 100)]. r ! i = NaN)))"
proof -
  have h1: "getitem table_single DistributionYield = Inr [Fin (5 / 100)]"
    by (simp add: getitem_def table_single_def)
  have h2: "fl_eq (series_max [Fin (5 / 100)]) (series_min [Fin (5 / 100)])"
    by (simp add: fl_eq_def series_max_def series_min_def)
  show ?thesis
    using h1 h2 normalize_column_degenerate[OF h1 h2, of True]
    by (intro conjI)
qed

text \<open>
  C8. For every weights and every \<open>top_n\<close> (negative ones too), \<open>select_stocks\<close> on an
  entity table with zero rows returns, and the frame it returns has zero rows: its index
  and every one of its columns are empty.
\<close>

theorem select_stocks_empty_table:
  assumes "argsort_spec (length (index (frames st ! df))) kind" and "df < length (frames st)"
    and "entity_table (frames st ! df)" and "index (frames st ! df) = []"
  shows "\<exists>out st'. select_stocks kind df top_n st = Inr (out, st') \<and>
           index (frames st' ! out) = [] \<and>
           list_all (\<lambda>(c, s). s = []) (cols (frames st' ! out))"
proof -
  let ?n = "length (index (frames st ! df))"
  from select_stocks_entity[OF assms(2,3), of kind top_n] obtain s1 s2 s3 s4 s5 where
    l: "length s1 = ?n" "length s2 = ?n" "length s3 = ?n" "length s4 = ?n" "length s5 = ?n"
    and r: "select_stocks kind df top_n st =
       Inr (length (frames st) + 3, final_store kind top_n st (frames st ! df) s1 s2 s3 s4 s5)"
    by metis
  let ?w = "weights (selector st)"
  have "length (nargsort kind (composite ?w s1 s2 s3 s4 s5) False) = ?n"
    by (rule out_frame_facts(1)[OF assms(1) l refl])
  then have ix: "nargsort kind (composite ?w s1 s2 s3 s4 s5) False = []"
    using assms(4) by simp
  have "index (head (sorted_frame kind ?w (frames st ! df) s1 s2 s3 s4 s5) top_n) = []"
    by (simp add: index_head sorted_frame_def index_take_rows ix)
  moreover have "list_all (\<lambda>(c, s). s = [])
       (cols (head (sorted_frame kind ?w (frames st ! df) s1 s2 s3 s4 s5) top_n))"
    by (auto simp: head_def sorted_frame_def take_rows_def ix list_all_iff Let_def)
  ultimately show ?thesis using r by (simp add: final_store_simps)
qed

theorem select_stocks_empty_table_witness:
  "argsort_spec (length (index (frames store_empty ! 0))) np_quicksort \<and>
   0 < length (frames store_empty) \<and>
   entity_table (frames store_empty ! 0) \<and> index (frames store_empty ! 0) = [] \<and>
   (\<exists>out st'. select_stocks np_quicksort 0 (- 3) store_empty = Inr (out, st') \<and>
      index (frames st' ! out) = [] \<and>
      list_all (\<lambda>(c, s). s = []) (cols (frames st' ! out)))"
  using store_empty_sorts store_empty_ok
    select_stocks_empty_table[OF store_empty_sorts store_empty_ok, of "- 3"]
  by (intro conjI)

text \<open>
  C9. \<open>select_stocks\<close> does not change what it is given. Called on an entity table
  that the store holds at \<open>df\<close>, it returns; every frame that existed before the call,
  the input table among them, is afterwards what it was (rows, columns and values);
  the weights of the selector are unchanged; and the frame it returns is a new object,
  at a reference that did not exist before the call.
\<close>

theorem select_stocks_leaves_inputs:
  assumes "df < length (frames st)" and "entity_table (frames st ! df)"
  shows "\<exists>out st'. select_stocks kind df top_n st = Inr (out, st') \<and>
           take (length (frames st)) (frames st') = frames st \<and>
           frames st' ! df = frames st ! df \<and>
           selector st' = selector st \<and>
           length (frames st) \<le> out \<and> out < length (frames st')"
proof -
  from select_stocks_entity[OF assms, of kind top_n] obtain s1 s2 s3 s4 s5 where
    "select_stocks kind df top_n st =
       Inr (length (frames st) + 3, final_store kind top_n st (frames st ! df) s1 s2 s3 s4 s5)"
    by metis
  then show ?thesis using assms(1) by (simp add: final_store_simps)
qed

theorem select_stocks_leaves_inputs_witness:
  "0 < length (frames store_ab) \<and> entity_table (frames store_ab ! 0) \<and>
   (\<exists>out st'. select_stocks np_quicksort 0 2 store_ab = Inr (out, st') \<and>
      take (length (frames store_ab)) (frames st') = frames store_ab \<and>
      frames st' ! 0 = frames store_ab ! 0 \<and>
      selector st' = selector store_ab \<and>
      length (frames store_ab) \<le> out \<and> out < length (frames st'))"
  using store_ab_ok select_stocks_leaves_inputs[OF store_ab_ok, of np_quicksort 2]
  by (intro conjI)

text \<open>
  C10. The \<open>ascending\<close> argument of \<open>normalize_column\<close> is never read: any two values
  of it give the same result. So the distribution-yield score, which passes
  \<open>ascending=False\<close>, is the plain normalization \<open>(value - min) / (max - min)\<close> of the
  yield column, the same as with \<open>ascending=True\<close>.
\<close>

theorem normalize_column_ascending_ignored:
  "normalize_column df column True = normalize_column df column False \<and>
   calculate_distribution_yield_score df = normalize_column df DistributionYield True \<and>
   (\<forall>s. getitem df DistributionYield = Inr s \<longrightarrow>
      calculate_distribution_yield_score df =
        Inr (map (\<lambda>v. fl_div (fl_sub v (series_min s)) (fl_sub (series_max s) (series_min s))) s))"
  by (simp add: normalize_column_def calculate_distribution_yield_score_def bind_err_def
      series_div_scalar_def series_sub_scalar_def)

theorem normalize_column_ascending_ignored_witness:
  "getitem table_ab DistributionYield = Inr [Fin (5 / 100), Fin (3 / 100)] \<and>
   normalize_column table_ab DistributionYield True =
     normalize_column table_ab DistributionYield False \<and>
   calculate_distribution_yield_score table_ab = Inr [Fin 1, Fin 0]"
proof -
  note g = getitem_table_ab_yield
  from normalize_column_ascending_ignored[of table_ab DistributionYield]
  have a: "normalize_column table_ab DistributionYield True =
             normalize_column table_ab DistributionYield False"
    and c: "\<forall>s. getitem table_ab DistributionYield = Inr s \<longrightarrow>
      calculate_distribution_yield_score table_ab =
        Inr (map (\<lambda>v. fl_div (fl_sub v (series_min s)) (fl_sub (series_max s) (series_min s))) s)"
    by blast+
  from c g have "calculate_distribution_yield_score table_ab =
        Inr (map (\<lambda>v. fl_div (fl_sub v (series_min [Fin (5 / 100), Fin (3 / 100)]))
          (fl_sub (series_max [Fin (5 / 100), Fin (3 / 100)])
             (series_min [Fin (5 / 100), Fin (3 / 100)]))) [Fin (5 / 100), Fin (3 / 100)])"
    by blast
  then have "calculate_distribution_yield_score table_ab = Inr [Fin 1, Fin 0]"
    by (simp add: series_min_def series_max_def fl_min_def fl_max_def fl_sub_def)
  with g a show ?thesis by (intro conjI)
qed

end
